theory Spec2Isabelle
  imports Main "HOL-Library.Sublist" "HOL-Library.Multiset" "HOL-Library.AList"
begin

section \<open>Paths: the path/filepath functions the archive engine calls\<close>

text \<open>
  The archive engine (archive/tar/tar.go) computes every name through Go's
  \<^verbatim>\<open>path/filepath\<close> package. The definitions of this section follow that package for
  a platform whose separator is the forward slash and which has no volume names; a path is a
  \<^typ>\<open>string\<close> of bytes.
\<close>

type_synonym path = string

text \<open>\<^verbatim>\<open>strings.Split(s, "/")\<close>: the pieces between separators, empty pieces included.\<close>

fun split_sep :: "string \<Rightarrow> string list" where
  "split_sep [] = [[]]"
| "split_sep (c # cs) =
     (if c = CHR ''/'' then [] # split_sep cs
      else (case split_sep cs of
              [] \<Rightarrow> [[c]]
            | w # ws \<Rightarrow> (c # w) # ws))"

text \<open>The path elements: the non-empty pieces.\<close>

definition elems :: "path \<Rightarrow> string list" where
  "elems p = filter (\<lambda>w. w \<noteq> []) (split_sep p)"

text \<open>An element of a path: not empty, and without a separator.\<close>

definition is_elem :: "string \<Rightarrow> bool" where
  "is_elem e = (e \<noteq> [] \<and> CHR ''/'' \<notin> set e)"

text \<open>\<^verbatim>\<open>strings.Join(es, "/")\<close>.\<close>

fun join_sep :: "string list \<Rightarrow> string" where
  "join_sep [] = []"
| "join_sep [e] = e"
| "join_sep (e # es) = e @ CHR ''/'' # join_sep es"

definition IsAbs :: "path \<Rightarrow> bool" where
  "IsAbs p = (case p of [] \<Rightarrow> False | c # _ \<Rightarrow> c = CHR ''/'')"

text \<open>
  \<^verbatim>\<open>filepath.Clean\<close>, element by element. \<open>out\<close> is the output written so far, as its
  list of elements. An empty element and a \<open>.\<close> element are skipped; a \<open>..\<close> element removes
  the last element of the output when that is a real element (the output is longer than
  its leading run of \<open>..\<close>), is appended when the path is not rooted, and is dropped at
  the root; any other element is copied.
\<close>

fun clean_elems :: "bool \<Rightarrow> string list \<Rightarrow> string list \<Rightarrow> string list" where
  "clean_elems rooted out [] = out"
| "clean_elems rooted out (e # es) =
     (if e = ''.'' then clean_elems rooted out es
      else if e = ''..'' then
        (if out \<noteq> [] \<and> last out \<noteq> ''..'' then clean_elems rooted (butlast out) es
         else if \<not> rooted then clean_elems rooted (out @ [''..'']) es
         else clean_elems rooted out es)
      else clean_elems rooted (out @ [e]) es)"

definition Clean :: "path \<Rightarrow> path" where
  "Clean p =
     (if p = [] then ''.''
      else let rooted = IsAbs p;
               out = clean_elems rooted [] (elems p)
           in if rooted then CHR ''/'' # join_sep out
              else if out = [] then ''.''
              else join_sep out)"

text \<open>
  \<^verbatim>\<open>filepath.Base\<close>: the last element of the path, trailing separators removed first;
  \<open>.\<close> for the empty path and a single separator for a path of separators only.
\<close>

definition Base :: "path \<Rightarrow> path" where
  "Base p =
     (if p = [] then ''.''
      else (case elems p of
              [] \<Rightarrow> ''/''
            | e # es \<Rightarrow> last (e # es)))"

text \<open>
  \<^verbatim>\<open>filepath.Dir\<close>: everything up to and including the last separator, cleaned.
\<close>

definition upto_last_sep :: "path \<Rightarrow> path" where
  "upto_last_sep p = rev (dropWhile (\<lambda>c. c \<noteq> CHR ''/'') (rev p))"

definition Dir :: "path \<Rightarrow> path" where
  "Dir p = Clean (upto_last_sep p)"

text \<open>
  \<^verbatim>\<open>filepath.Join\<close>: leading empty elements are ignored, the rest is joined with the
  separator and cleaned; the result is empty when every element is.
\<close>

fun Join :: "string list \<Rightarrow> path" where
  "Join [] = []"
| "Join (e # es) = (if e = [] then Join es else Clean (join_sep (e # es)))"

text \<open>\<^verbatim>\<open>filepath.ToSlash\<close> changes nothing where the separator is the slash.\<close>

definition ToSlash :: "path \<Rightarrow> path" where
  "ToSlash p = p"

text \<open>\<^verbatim>\<open>strings.HasPrefix\<close> and \<^verbatim>\<open>strings.TrimPrefix\<close>.\<close>

definition HasPrefix :: "string \<Rightarrow> string \<Rightarrow> bool" where
  "HasPrefix s pre = (take (length pre) s = pre)"

definition TrimPrefix :: "string \<Rightarrow> string \<Rightarrow> string" where
  "TrimPrefix s pre = (if HasPrefix s pre then drop (length pre) s else s)"

text \<open>
  \<^verbatim>\<open>filepath.Rel\<close>. Both paths are cleaned; equal paths give \<open>.\<close>; a base of \<open>.\<close>
  counts as empty; a rooted and an unrooted path cannot be related. The loop of the
  library positions both paths at their first differing elements: \<open>rel_diverge\<close> returns
  the elements of the base and of the target that are left, and whether the loop stopped
  at two elements that differ (rather than at the end of one of the paths). The call
  fails when it stopped at a base element \<open>..\<close>. Otherwise the result climbs one \<open>..\<close> for
  every base element left and then descends the target elements left.
\<close>

fun rel_diverge :: "string list \<Rightarrow> string list \<Rightarrow> string list \<times> string list \<times> bool" where
  "rel_diverge (b # bs) (t # ts) =
     (if b = t then rel_diverge bs ts else (b # bs, t # ts, True))"
| "rel_diverge bs ts = (bs, ts, False)"

text \<open>
  The errors: one constructor for each place where the source, or the library under it,
  makes an error or wraps one.
\<close>

datatype error =
    ErrRel                        \<comment> \<open>filepath.Rel: can't make the target relative to the base\<close>
  | ErrRelativePath error         \<comment> \<open>relative: "relative path ..., base ..."\<close>
  | ErrOs                         \<comment> \<open>an error of a system call\<close>
  | ErrSourceNotReachable         \<comment> \<open>Create: "make sure file or directory readable", source not reachable\<close>
  | ErrWalk error                 \<comment> \<open>Create: "walk, add all files to archive"\<close>
  | ErrNoFileInfo                 \<comment> \<open>writeToArchive: "no file info"\<close>
  | ErrCreateHeader error         \<comment> \<open>writeToArchive: "create header for"\<close>
  | ErrSymlinkHeader error        \<comment> \<open>writeToArchive: "create header for symbolic link"\<close>
  | ErrReadLink error             \<comment> \<open>createSymlinkHeader: "read link"\<close>
  | ErrCreateSymlinkHeader error  \<comment> \<open>createSymlinkHeader: "create symlink header for"\<close>
  | ErrRelativeName error         \<comment> \<open>"relative name"\<close>
  | ErrWriteHeader error          \<comment> \<open>writeToArchive: "write header for"\<close>
  | ErrWriteFile error            \<comment> \<open>writeToArchive: "write file to archive"\<close>
  | ErrOpenFile error             \<comment> \<open>writeFileToArchive: "open file"\<close>
  | ErrCopyToTarball error        \<comment> \<open>writeFileToArchive: "copy the file data to the tarball"\<close>
  | ErrArchiveNotReadable         \<comment> \<open>Extract: "tar reader", archive not readable\<close>
  | ErrEnsureDirectory error      \<comment> \<open>Extract: "ensure directory"\<close>
  | ErrCreateDirectory error      \<comment> \<open>"create directory"\<close>
  | ErrExtractRegular error       \<comment> \<open>Extract: "extract regular file"\<close>
  | ErrExtractSymlink error       \<comment> \<open>Extract: "extract symbolic link"\<close>
  | ErrExtractLink error          \<comment> \<open>Extract: "extract link"\<close>
  | ErrUnknownTypeFlag            \<comment> \<open>Extract: "unknown type flag"\<close>
  | ErrOpenExtracted error        \<comment> \<open>extractRegular: "open extracted file for writing"\<close>
  | ErrCopyExtracted error        \<comment> \<open>extractRegular: "copy extracted file for writing"\<close>
  | ErrUnlink error               \<comment> \<open>"unlink"\<close>
  | ErrCreateSymlink error        \<comment> \<open>extractSymlink: "create symbolic link"\<close>
  | ErrCreateHardLink error       \<comment> \<open>extractLink: "create hard link"\<close>
  | ErrClose error                \<comment> \<open>a failure of closing a file, captured on return\<close>

definition Rel :: "path \<Rightarrow> path \<Rightarrow> error + path" where
  "Rel basepath targpath =
     (let base = Clean basepath;
          targ = Clean targpath
      in if targ = base then Inr ''.''
         else let base = (if base = ''.'' then [] else base)
              in if IsAbs base \<noteq> IsAbs targ then Inl ErrRel
                 else (case rel_diverge (elems base) (elems targ) of
                         (bs, ts, differ) \<Rightarrow>
                           if differ \<and> hd bs = ''..'' then Inl ErrRel
                           else if bs \<noteq> [] then Inr (join_sep (map (\<lambda>_. ''..'') bs @ ts))
                           else Inr (join_sep ts)))"

section \<open>The path normalizer\<close>

text \<open>
  \<^verbatim>\<open>for strings.HasPrefix(rel, "../") { rel = strings.TrimPrefix(rel, "../") }\<close>
\<close>

lemma HasPrefix_length: "HasPrefix s pre \<Longrightarrow> length pre \<le> length s"
  unfolding HasPrefix_def by (metis length_take min.cobounded1)

function strip_dotdot :: "string \<Rightarrow> string" where
  "strip_dotdot s = (if HasPrefix s ''../'' then strip_dotdot (TrimPrefix s ''../'') else s)"
  by pat_completeness auto
termination
proof (relation "measure length")
  fix s :: string
  assume h: "HasPrefix s ''../''"
  from HasPrefix_length [OF h] have "3 \<le> length s"
    by simp
  with h show "(TrimPrefix s ''../'', s) \<in> measure length"
    by (simp add: TrimPrefix_def)
qed simp

declare strip_dotdot.simps [simp del]

text \<open>\<^verbatim>\<open>relative(parent, path)\<close> of tar.go.\<close>

definition relative :: "path \<Rightarrow> path \<Rightarrow> error + path" where
  "relative parent p =
     (let name = Base p
      in case Rel parent (Dir p) of
           Inl e \<Rightarrow> Inl (ErrRelativePath e)
         | Inr rel \<Rightarrow>
             (let rel = strip_dotdot rel;
                  rel = ToSlash rel
              in Inr (TrimPrefix (Join [rel, name]) ''/'')))"

section \<open>Archive entries\<close>

text \<open>
  A time is a count of nanoseconds; the zero time of Go's \<^verbatim>\<open>time.Time\<close>, for which
  \<^verbatim>\<open>IsZero\<close> holds, is \<open>0\<close>. Byte counts, modes and numeric identifiers are integers
  (\<^verbatim>\<open>int64\<close> and \<^verbatim>\<open>int\<close> in the source; no count of this development comes near
  the bound of 63 bits).
\<close>

type_synonym time = int
type_synonym bytes = "char list"

definition IsZero :: "time \<Rightarrow> bool" where
  "IsZero t = (t = 0)"

text \<open>The type flags and header formats of \<^verbatim>\<open>archive/tar\<close>.\<close>

datatype typeflag =
    TypeReg | TypeRegA | TypeLink | TypeSymlink | TypeChar | TypeBlock | TypeDir | TypeFifo
  | TypeCont | TypeXHeader | TypeXGlobalHeader | TypeGNUSparse | TypeGNULongName
  | TypeGNULongLink | TypeOther char

datatype format = FormatUnknown | FormatUSTAR | FormatPAX | FormatGNU

record header =
  Typeflag :: typeflag
  Name :: string
  Linkname :: string
  Size :: int
  Mode :: int
  Uid :: int
  Gid :: int
  ModTime :: time
  AccessTime :: time
  ChangeTime :: time
  Format :: format

section \<open>The operating system\<close>

text \<open>
  The system calls the engine makes. Every call is recorded, in order, in the state, and
  whether a call fails for a reason outside the model (a permission, a full disk, a
  closed stream) is decided by the environment, from the position of the call in the
  record and the call itself.
\<close>

datatype syscall =
    SLstat path
  | SRemove path
  | SMkdirAll path int
  | SOpenFile path int
  | SWrite path bytes
  | SClose path
  | SSymlink string path
  | SLink string path
  | SChmod path int
  | SChtimes path time time
  | SChown path int int
  | SLchown path int int

record os_env =
  windows :: bool                              \<comment> \<open>\<^verbatim>\<open>runtime.GOOS == "windows"\<close>\<close>
  fails :: "nat \<Rightarrow> syscall \<Rightarrow> bool"            \<comment> \<open>the calls that fail\<close>
  clock :: time                                \<comment> \<open>the time stamped on a new entry\<close>
  euid :: int                                  \<comment> \<open>the owner of a new entry\<close>
  egid :: int
  range_rank :: "path \<Rightarrow> nat"                   \<comment> \<open>decides the order in which a map is ranged over\<close>

text \<open>
  The file system: names bound to inodes, so that a hard link is a second name of one
  inode. Two paths name the same entry when their cleaned forms are equal. Symbolic links
  are entries of their own and are never followed. Modes and owners are recorded, not
  enforced: whether a call is denied is for the environment to say.
\<close>

datatype kind = KDir | KFile bytes | KSymlink string

record inode =
  kind :: kind
  perm :: int
  atime :: time
  mtime :: time
  uid :: int
  gid :: int

record fs =
  names :: "path \<rightharpoonup> nat"
  inodes :: "nat \<rightharpoonup> inode"
  fresh :: nat
  calls :: "syscall list"

definition key :: "path \<Rightarrow> path" where
  "key p = Clean p"

definition lookup :: "fs \<Rightarrow> path \<Rightarrow> inode option" where
  "lookup s p = (case names s (key p) of None \<Rightarrow> None | Some i \<Rightarrow> inodes s i)"

text \<open>A name bound to a directory.\<close>

definition is_dir :: "fs \<Rightarrow> path \<Rightarrow> bool" where
  "is_dir s q = (\<exists>i n. names s q = Some i \<and> inodes s i = Some n \<and> kind n = KDir)"

definition failing :: "os_env \<Rightarrow> fs \<Rightarrow> syscall \<Rightarrow> bool" where
  "failing env s c = fails env (length (calls s)) c"

definition record_call :: "syscall \<Rightarrow> fs \<Rightarrow> fs" where
  "record_call c s = s\<lparr>calls := calls s @ [c]\<rparr>"

definition new_inode :: "os_env \<Rightarrow> kind \<Rightarrow> int \<Rightarrow> inode" where
  "new_inode env k m =
     \<lparr>kind = k, perm = m, atime = clock env, mtime = clock env, uid = euid env, gid = egid env\<rparr>"

definition create :: "os_env \<Rightarrow> path \<Rightarrow> kind \<Rightarrow> int \<Rightarrow> fs \<Rightarrow> fs" where
  "create env q k m s =
     s\<lparr>names := (names s)(q \<mapsto> fresh s),
       inodes := (inodes s)(fresh s \<mapsto> new_inode env k m),
       fresh := Suc (fresh s)\<rparr>"

definition update_inode :: "path \<Rightarrow> (inode \<Rightarrow> inode) \<Rightarrow> fs \<Rightarrow> fs" where
  "update_inode p f s =
     (case names s (key p) of
        None \<Rightarrow> s
      | Some i \<Rightarrow> (case inodes s i of
                    None \<Rightarrow> s
                  | Some n \<Rightarrow> s\<lparr>inodes := (inodes s)(i \<mapsto> f n)\<rparr>))"

text \<open>\<^verbatim>\<open>os.Lstat\<close>: succeeds when an entry has the name.\<close>

definition Lstat :: "os_env \<Rightarrow> path \<Rightarrow> fs \<Rightarrow> bool \<times> fs" where
  "Lstat env p s =
     (\<not> failing env s (SLstat p) \<and> lookup s p \<noteq> None, record_call (SLstat p) s)"

text \<open>\<^verbatim>\<open>os.Remove\<close>: takes the name away.\<close>

definition Remove :: "os_env \<Rightarrow> path \<Rightarrow> fs \<Rightarrow> error option \<times> fs" where
  "Remove env p s =
     (let s' = record_call (SRemove p) s
      in if failing env s (SRemove p) \<or> lookup s p = None then (Some ErrOs, s')
         else (None, s'\<lparr>names := (names s')(key p := None)\<rparr>))"

text \<open>
  \<^verbatim>\<open>os.MkdirAll\<close>: creates the directory and every missing parent, with the given
  permission; an existing directory is left as it is; a name on the way that is bound to
  something else makes the call fail.
\<close>

definition ancestors :: "path \<Rightarrow> path list" where
  "ancestors p =
     (let c = Clean p; es = elems c
      in map (\<lambda>k. (if IsAbs c then ''/'' else []) @ join_sep (take k es)) [1..<Suc (length es)])"

fun mkdirs :: "os_env \<Rightarrow> int \<Rightarrow> path list \<Rightarrow> fs \<Rightarrow> error option \<times> fs" where
  "mkdirs env m [] s = (None, s)"
| "mkdirs env m (q # qs) s =
     (case names s q of
        None \<Rightarrow> mkdirs env m qs (create env q KDir m s)
      | Some i \<Rightarrow>
          (case inodes s i of
             None \<Rightarrow> (Some ErrOs, s)
           | Some n \<Rightarrow> if kind n = KDir then mkdirs env m qs s else (Some ErrOs, s)))"

definition MkdirAll :: "os_env \<Rightarrow> path \<Rightarrow> int \<Rightarrow> fs \<Rightarrow> error option \<times> fs" where
  "MkdirAll env p m s =
     (let s' = record_call (SMkdirAll p m) s
      in if failing env s (SMkdirAll p m) then (Some ErrOs, s')
         else mkdirs env m (ancestors p) s')"

text \<open>
  \<^verbatim>\<open>os.OpenFile(name, os.O_CREATE|os.O_RDWR, perm)\<close>: creates an empty file when the name
  is free and opens the file that is there otherwise, with its content as it is; a
  directory cannot be opened for writing.
\<close>

definition OpenFile :: "os_env \<Rightarrow> path \<Rightarrow> int \<Rightarrow> fs \<Rightarrow> error option \<times> fs" where
  "OpenFile env p m s =
     (let s' = record_call (SOpenFile p m) s
      in if failing env s (SOpenFile p m) then (Some ErrOs, s')
         else (case lookup s p of
                 None \<Rightarrow> (None, create env (key p) (KFile []) m s')
               | Some n \<Rightarrow>
                   (case kind n of
                      KFile _ \<Rightarrow> (None, s')
                    | _ \<Rightarrow> (Some ErrOs, s'))))"

text \<open>
  Writing \<open>bs\<close> from the start of a file just opened: the bytes replace the first
  \<open>length bs\<close> bytes of the content, and what the file held beyond them stays.
\<close>

definition overwrite :: "bytes \<Rightarrow> bytes \<Rightarrow> bytes" where
  "overwrite bs old = bs @ drop (length bs) old"

definition write_file :: "os_env \<Rightarrow> path \<Rightarrow> bytes \<Rightarrow> fs \<Rightarrow> fs" where
  "write_file env p bs s =
     update_inode p
       (\<lambda>n. case kind n of
               KFile old \<Rightarrow> n\<lparr>kind := KFile (overwrite bs old), mtime := clock env\<rparr>
             | _ \<Rightarrow> n)
       (record_call (SWrite p bs) s)"

definition Close :: "os_env \<Rightarrow> path \<Rightarrow> fs \<Rightarrow> error option \<times> fs" where
  "Close env p s =
     (if failing env s (SClose p) then Some ErrOs else None, record_call (SClose p) s)"

text \<open>
  \<^verbatim>\<open>os.Symlink(oldname, newname)\<close>: the new name must be free; the link is made with
  every permission bit set (\<open>511\<close> is octal 777).
\<close>

definition Symlink :: "os_env \<Rightarrow> string \<Rightarrow> path \<Rightarrow> fs \<Rightarrow> error option \<times> fs" where
  "Symlink env old new s =
     (let s' = record_call (SSymlink old new) s
      in if failing env s (SSymlink old new) \<or> names s (key new) \<noteq> None then (Some ErrOs, s')
         else (None, create env (key new) (KSymlink old) 511 s'))"

text \<open>
  \<^verbatim>\<open>os.Link(oldname, newname)\<close>: the new name must be free, and the old one bound to
  something other than a directory; the new name is bound to the same inode.
\<close>

definition Link :: "os_env \<Rightarrow> string \<Rightarrow> path \<Rightarrow> fs \<Rightarrow> error option \<times> fs" where
  "Link env old new s =
     (let s' = record_call (SLink old new) s
      in if failing env s (SLink old new) \<or> names s (key new) \<noteq> None then (Some ErrOs, s')
         else (case names s (key old) of
                 None \<Rightarrow> (Some ErrOs, s')
               | Some i \<Rightarrow>
                   (case inodes s i of
                      None \<Rightarrow> (Some ErrOs, s')
                    | Some n \<Rightarrow>
                        if kind n = KDir then (Some ErrOs, s')
                        else (None, s'\<lparr>names := (names s')(key new \<mapsto> i)\<rparr>))))"

text \<open>
  The calls that apply metadata. Each changes the inode when it succeeds and nothing
  when it fails.
\<close>

definition apply_meta ::
  "os_env \<Rightarrow> syscall \<Rightarrow> path \<Rightarrow> (inode \<Rightarrow> inode) \<Rightarrow> fs \<Rightarrow> error option \<times> fs" where
  "apply_meta env c p f s =
     (let s' = record_call c s
      in if failing env s c \<or> lookup s p = None then (Some ErrOs, s')
         else (None, update_inode p f s'))"

definition Chmod :: "os_env \<Rightarrow> path \<Rightarrow> int \<Rightarrow> fs \<Rightarrow> error option \<times> fs" where
  "Chmod env p m s = apply_meta env (SChmod p m) p (\<lambda>n. n\<lparr>perm := m\<rparr>) s"

definition Chtimes :: "os_env \<Rightarrow> path \<Rightarrow> time \<Rightarrow> time \<Rightarrow> fs \<Rightarrow> error option \<times> fs" where
  "Chtimes env p a m s = apply_meta env (SChtimes p a m) p (\<lambda>n. n\<lparr>atime := a, mtime := m\<rparr>) s"

definition Chown :: "os_env \<Rightarrow> path \<Rightarrow> int \<Rightarrow> int \<Rightarrow> fs \<Rightarrow> error option \<times> fs" where
  "Chown env p u g s = apply_meta env (SChown p u g) p (\<lambda>n. n\<lparr>uid := u, gid := g\<rparr>) s"

definition Lchown :: "os_env \<Rightarrow> path \<Rightarrow> int \<Rightarrow> int \<Rightarrow> fs \<Rightarrow> error option \<times> fs" where
  "Lchown env p u g s = apply_meta env (SLchown p u g) p (\<lambda>n. n\<lparr>uid := u, gid := g\<rparr>) s"

section \<open>Extraction\<close>

text \<open>\<^verbatim>\<open>const defaultDirPermission = 0755\<close>, in decimal.\<close>

definition defaultDirPermission :: int where
  "defaultDirPermission = 493"

text \<open>
  What \<^verbatim>\<open>tar.Reader\<close> gives to the loop of \<^verbatim>\<open>Extract\<close>, one item for each call of
  \<^verbatim>\<open>Next\<close>: an entry (its header, its payload, and, when reading the payload breaks, the
  number of bytes that come through before it does), a nil header without an error, or
  an error other than the end of the stream. The end of the list is \<^verbatim>\<open>io.EOF\<close>.
\<close>

datatype read_event = Entry header bytes "nat option" | NilHeader | ReadError

text \<open>The record kept for a directory until the end of the stream.\<close>

record dir_meta =
  dm_mode :: int
  dm_at :: time
  dm_mt :: time
  dm_uid :: int
  dm_gid :: int

definition zero_meta :: dir_meta where
  "zero_meta = \<lparr>dm_mode = 0, dm_at = 0, dm_mt = 0, dm_uid = 0, dm_gid = 0\<rparr>"

text \<open>\<^verbatim>\<open>unlink(path)\<close>: removes the entry when \<^verbatim>\<open>Lstat\<close> finds one.\<close>

definition unlink :: "os_env \<Rightarrow> path \<Rightarrow> fs \<Rightarrow> error option \<times> fs" where
  "unlink env p s =
     (case Lstat env p s of
        (True, s1) \<Rightarrow> Remove env p s1
      | (False, s1) \<Rightarrow> (None, s1))"

text \<open>\<^verbatim>\<open>extractDir(h, target)\<close>.\<close>

definition extractDir :: "os_env \<Rightarrow> header \<Rightarrow> path \<Rightarrow> fs \<Rightarrow> error option \<times> fs" where
  "extractDir env h target s =
     (case MkdirAll env target (Mode h) s of
        (Some e, s1) \<Rightarrow> (Some (ErrCreateDirectory e), s1)
      | (None, s1) \<Rightarrow> (None, s1))"

text \<open>
  The block that \<^verbatim>\<open>extractRegular\<close> and \<^verbatim>\<open>extractLink\<close> both run when metadata is
  preserved: mode, then times (the access time falls back to the modification time),
  then, except on Windows, ownership. The result of every call is discarded.
\<close>

definition restore_metadata :: "os_env \<Rightarrow> header \<Rightarrow> path \<Rightarrow> fs \<Rightarrow> fs" where
  "restore_metadata env h target s =
     (let s1 = snd (Chmod env target (Mode h) s);
          at = (if IsZero (AccessTime h) then ModTime h else AccessTime h);
          s2 = snd (Chtimes env target at (ModTime h) s1)
      in if \<not> windows env then snd (Chown env target (Uid h) (Gid h) s2) else s2)"

text \<open>
  \<^verbatim>\<open>extractRegular(h, tr, target, preserveMetadata)\<close>. The file is closed on return by
  \<^verbatim>\<open>internal.CloseWithErrCapturef\<close>, which is not among the sources at hand: here a
  failure of closing becomes the error of a call that had none.
\<close>

definition extractRegular ::
  "os_env \<Rightarrow> header \<Rightarrow> bytes \<Rightarrow> nat option \<Rightarrow> path \<Rightarrow> bool \<Rightarrow> fs \<Rightarrow> (int \<times> error option) \<times> fs" where
  "extractRegular env h payload fault target preserveMetadata s =
     (case OpenFile env target (Mode h) s of
        (Some e, s1) \<Rightarrow> ((0, Some (ErrOpenExtracted e)), s1)
      | (None, s1) \<Rightarrow>
          (case fault of
             Some k \<Rightarrow>
               (let s2 = write_file env target (take k payload) s1;
                    s3 = snd (Close env target s2)
                in ((int (length (take k payload)), Some (ErrCopyExtracted ErrOs)), s3))
           | None \<Rightarrow>
               (let s2 = write_file env target payload s1;
                    s3 = (if preserveMetadata then restore_metadata env h target s2 else s2);
                    (c, s4) = Close env target s3
                in ((int (length payload), map_option ErrClose c), s4))))"

text \<open>\<^verbatim>\<open>extractSymlink(h, target, preserveMetadata)\<close>.\<close>

definition extractSymlink ::
  "os_env \<Rightarrow> header \<Rightarrow> path \<Rightarrow> bool \<Rightarrow> fs \<Rightarrow> error option \<times> fs" where
  "extractSymlink env h target preserveMetadata s =
     (case unlink env target s of
        (Some e, s1) \<Rightarrow> (Some (ErrUnlink e), s1)
      | (None, s1) \<Rightarrow>
          (case Symlink env (Linkname h) target s1 of
             (Some e, s2) \<Rightarrow> (Some (ErrCreateSymlink e), s2)
           | (None, s2) \<Rightarrow>
               (None, if preserveMetadata \<and> \<not> windows env
                      then snd (Lchown env target (Uid h) (Gid h) s2) else s2)))"

text \<open>\<^verbatim>\<open>extractLink(h, target, preserveMetadata)\<close>.\<close>

definition extractLink ::
  "os_env \<Rightarrow> header \<Rightarrow> path \<Rightarrow> bool \<Rightarrow> fs \<Rightarrow> error option \<times> fs" where
  "extractLink env h target preserveMetadata s =
     (case unlink env target s of
        (Some e, s1) \<Rightarrow> (Some (ErrUnlink e), s1)
      | (None, s1) \<Rightarrow>
          (case Link env (Linkname h) target s1 of
             (Some e, s2) \<Rightarrow> (Some (ErrCreateHardLink e), s2)
           | (None, s2) \<Rightarrow>
               (None, if preserveMetadata then restore_metadata env h target s2 else s2)))"

text \<open>
  The destination of an entry (\<^verbatim>\<open>Extract\<close>, the block that sets \<^verbatim>\<open>target\<close>).
\<close>

definition entry_target :: "path \<Rightarrow> header \<Rightarrow> error + path" where
  "entry_target dst h =
     (if dst = Name h \<or> IsAbs (Name h) then Inr (Name h)
      else (case relative dst (Name h) of
              Inl e \<Rightarrow> Inl (ErrRelativeName e)
            | Inr name \<Rightarrow> Inr (Join [dst, name])))"

text \<open>
  The sort of the directories at the end of the stream, as the source writes it: two
  nested loops over indices, exchanging \<^verbatim>\<open>dirs[i]\<close> and \<^verbatim>\<open>dirs[j]\<close> when the first is
  the shorter string.
\<close>

function sort_inner :: "nat \<Rightarrow> nat \<Rightarrow> path list \<Rightarrow> path list" where
  "sort_inner i j dirs =
     (if j < length dirs
      then sort_inner i (Suc j)
             (if length (dirs ! i) < length (dirs ! j)
              then dirs[i := dirs ! j, j := dirs ! i] else dirs)
      else dirs)"
  by pat_completeness auto
termination
  by (relation "measure (\<lambda>(i, j, dirs). length dirs - j)") auto

declare sort_inner.simps [simp del]

lemma length_sort_inner: "length (sort_inner i j dirs) = length dirs"
proof (induction i j dirs rule: sort_inner.induct)
  case (1 i j dirs)
  then show ?case
    by (subst sort_inner.simps) auto
qed

function sort_outer :: "nat \<Rightarrow> path list \<Rightarrow> path list" where
  "sort_outer i dirs =
     (if i < length dirs then sort_outer (Suc i) (sort_inner i (Suc i) dirs) else dirs)"
  by pat_completeness auto
termination
  by (relation "measure (\<lambda>(i, dirs). length dirs - i)") (auto simp: length_sort_inner)

declare sort_outer.simps [simp del]

definition sort_dirs :: "path list \<Rightarrow> path list" where
  "sort_dirs dirs = sort_outer 0 dirs"

text \<open>
  The loop that applies the records: for each directory, in the order of the list, the
  mode, the times and, except on Windows, the ownership. Every result is discarded.
\<close>

definition apply_dir_meta :: "os_env \<Rightarrow> path \<Rightarrow> dir_meta \<Rightarrow> fs \<Rightarrow> fs" where
  "apply_dir_meta env dir meta s =
     (let s1 = snd (Chmod env dir (dm_mode meta) s);
          s2 = snd (Chtimes env dir (dm_at meta) (dm_mt meta) s1)
      in if \<not> windows env then snd (Chown env dir (dm_uid meta) (dm_gid meta) s2) else s2)"

fun flush_dirs :: "os_env \<Rightarrow> (path \<times> dir_meta) list \<Rightarrow> path list \<Rightarrow> fs \<Rightarrow> fs" where
  "flush_dirs env dirMetadata [] s = s"
| "flush_dirs env dirMetadata (dir # dirs) s =
     (let meta = (case map_of dirMetadata dir of None \<Rightarrow> zero_meta | Some m \<Rightarrow> m)
      in flush_dirs env dirMetadata dirs (apply_dir_meta env dir meta s))"

text \<open>
  \<^verbatim>\<open>for dir := range dirMetadata { dirs = append(dirs, dir) }\<close>: Go ranges over a map
  in an order it does not specify. The environment ranks the keys, and the range yields
  them by rank; every order of the keys is the order of some ranking.
\<close>

definition range_keys :: "os_env \<Rightarrow> (path \<times> dir_meta) list \<Rightarrow> path list" where
  "range_keys env dirMetadata = sort_key (range_rank env) (map fst dirMetadata)"

text \<open>The directories in the order in which they are restored: the keys, sorted.\<close>

definition flush_order :: "os_env \<Rightarrow> (path \<times> dir_meta) list \<Rightarrow> path list" where
  "flush_order env dirMetadata = sort_dirs (range_keys env dirMetadata)"

text \<open>
  The body of the loop of \<^verbatim>\<open>Extract\<close> for one header: it ends either in a
  \<^verbatim>\<open>continue\<close>, with the bytes written so far and the map of directory records, or in
  a \<^verbatim>\<open>return\<close>. The map is kept as a list of pairs with one pair for a key; an
  assignment replaces the pair of its key.
\<close>

datatype step =
    Continue int "(path \<times> dir_meta) list" fs
  | Return "int \<times> error option" fs

text \<open>The parts of a step.\<close>

fun step_fs :: "step \<Rightarrow> fs" where
  "step_fs (Continue w dm s) = s"
| "step_fs (Return r s) = s"

fun step_written :: "step \<Rightarrow> int" where
  "step_written (Continue w dm s) = w"
| "step_written (Return r s) = fst r"

fun step_dm :: "step \<Rightarrow> (path \<times> dir_meta) list" where
  "step_dm (Continue w dm s) = dm"
| "step_dm (Return r s) = []"

definition extract_entry ::
  "os_env \<Rightarrow> bool \<Rightarrow> path \<Rightarrow> header \<Rightarrow> bytes \<Rightarrow> nat option \<Rightarrow> int
     \<Rightarrow> (path \<times> dir_meta) list \<Rightarrow> fs \<Rightarrow> step" where
  "extract_entry env pm dst h payload fault written dirMetadata s =
     (case entry_target dst h of
        Inl e \<Rightarrow> Return (0, Some e) s
      | Inr target \<Rightarrow>
          (case MkdirAll env (Dir target) defaultDirPermission s of
             (Some e, s1) \<Rightarrow> Return (0, Some (ErrEnsureDirectory e)) s1
           | (None, s1) \<Rightarrow>
               (if Typeflag h = TypeDir then
                  (if pm then
                     (let dirMetadata' =
                            AList.update target
                              \<lparr>dm_mode = Mode h, dm_at = AccessTime h, dm_mt = ModTime h,
                               dm_uid = Uid h, dm_gid = Gid h\<rparr> dirMetadata
                      in case MkdirAll env target defaultDirPermission s1 of
                           (Some e, s2) \<Rightarrow> Return (written, Some (ErrCreateDirectory e)) s2
                         | (None, s2) \<Rightarrow> Continue written dirMetadata' s2)
                   else
                     (case extractDir env h target s1 of
                        (Some e, s2) \<Rightarrow> Return (written, Some e) s2
                      | (None, s2) \<Rightarrow> Continue written dirMetadata s2))
                else if Typeflag h \<in> {TypeReg, TypeRegA, TypeChar, TypeBlock, TypeFifo} then
                  (case extractRegular env h payload fault target pm s1 of
                     ((n, Some e), s2) \<Rightarrow> Return (written + n, Some (ErrExtractRegular e)) s2
                   | ((n, None), s2) \<Rightarrow> Continue (written + n) dirMetadata s2)
                else if Typeflag h = TypeSymlink then
                  (case extractSymlink env h target pm s1 of
                     (Some e, s2) \<Rightarrow> Return (written, Some (ErrExtractSymlink e)) s2
                   | (None, s2) \<Rightarrow> Continue written dirMetadata s2)
                else if Typeflag h = TypeLink then
                  (case extractLink env h target pm s1 of
                     (Some e, s2) \<Rightarrow> Return (written, Some (ErrExtractLink e)) s2
                   | (None, s2) \<Rightarrow> Continue written dirMetadata s2)
                else if Typeflag h = TypeXGlobalHeader then Continue written dirMetadata s1
                else Return (written, Some ErrUnknownTypeFlag) s1)))"

text \<open>
  \<^verbatim>\<open>Extract(dst, r)\<close>: the loop over what the reader gives. At the end of the stream the
  directory records are applied, when metadata is preserved, and the call returns the
  bytes written.
\<close>

fun extract_loop ::
  "os_env \<Rightarrow> bool \<Rightarrow> path \<Rightarrow> read_event list \<Rightarrow> int \<Rightarrow> (path \<times> dir_meta) list \<Rightarrow> fs
     \<Rightarrow> (int \<times> error option) \<times> fs" where
  "extract_loop env pm dst [] written dirMetadata s =
     (if pm then ((written, None), flush_dirs env dirMetadata (flush_order env dirMetadata) s)
      else ((written, None), s))"
| "extract_loop env pm dst (ReadError # evs) written dirMetadata s =
     ((written, Some ErrArchiveNotReadable), s)"
| "extract_loop env pm dst (NilHeader # evs) written dirMetadata s =
     extract_loop env pm dst evs written dirMetadata s"
| "extract_loop env pm dst (Entry h payload fault # evs) written dirMetadata s =
     (case extract_entry env pm dst h payload fault written dirMetadata s of
        Return r s' \<Rightarrow> (r, s')
      | Continue written' dirMetadata' s' \<Rightarrow> extract_loop env pm dst evs written' dirMetadata' s')"

text \<open>
  The loop of \<open>Extract\<close> over the first part of a stream: where it stands, or what it
  has returned, before the end of the stream is looked at.
\<close>

fun extract_steps ::
  "os_env \<Rightarrow> bool \<Rightarrow> path \<Rightarrow> read_event list \<Rightarrow> int \<Rightarrow> (path \<times> dir_meta) list \<Rightarrow> fs \<Rightarrow> step" where
  "extract_steps env pm dst [] w dm s = Continue w dm s"
| "extract_steps env pm dst (ReadError # evs) w dm s = Return (w, Some ErrArchiveNotReadable) s"
| "extract_steps env pm dst (NilHeader # evs) w dm s = extract_steps env pm dst evs w dm s"
| "extract_steps env pm dst (Entry h payload fault # evs) w dm s =
     (case extract_entry env pm dst h payload fault w dm s of
        Return r s' \<Rightarrow> Return r s'
      | Continue w' dm' s' \<Rightarrow> extract_steps env pm dst evs w' dm' s')"

definition Extract ::
  "os_env \<Rightarrow> bool \<Rightarrow> path \<Rightarrow> read_event list \<Rightarrow> fs \<Rightarrow> (int \<times> error option) \<times> fs" where
  "Extract env preserveMetadata dst r s = extract_loop env preserveMetadata dst r 0 [] s"

section \<open>Creation\<close>

text \<open>
  What \<^verbatim>\<open>os.FileInfo\<close> tells about a file: its base name, size, permission bits,
  modification time and, where the platform has it, the \<^verbatim>\<open>syscall.Stat_t\<close> behind
  \<^verbatim>\<open>Sys()\<close> (owner, group, access time, change time).
\<close>

record stat_t =
  st_uid :: int
  st_gid :: int
  st_atime :: time
  st_ctime :: time

record fileinfo =
  fi_name :: string
  fi_size :: int
  fi_perm :: int
  fi_modtime :: time
  fi_sys :: "stat_t option"

text \<open>
  The files \<open>Create\<close> reads, as trees. A regular file has its content, whether opening
  it fails, and, when copying it breaks, the number of bytes copied before it does. A
  directory has the error of reading it, if any, and its children in the order of their
  names. A symbolic link has what \<^verbatim>\<open>Readlink\<close> returns, if it succeeds. A name whose
  \<^verbatim>\<open>Lstat\<close> fails is \<open>SrcGone\<close>. The other kinds of file have no content.
\<close>

datatype special = CharDevice | BlockDevice | NamedPipe | Socket

datatype src =
    SrcFile fileinfo bytes bool "nat option"
  | SrcDir fileinfo "error option" "src list"
  | SrcLink fileinfo "string option"
  | SrcSpecial fileinfo special
  | SrcGone string

fun info :: "src \<Rightarrow> fileinfo option" where
  "info (SrcFile fi content open_fails fault) = Some fi"
| "info (SrcDir fi err children) = Some fi"
| "info (SrcLink fi lnk) = Some fi"
| "info (SrcSpecial fi sp) = Some fi"
| "info (SrcGone name) = None"

fun src_name :: "src \<Rightarrow> string" where
  "src_name (SrcGone name) = name"
| "src_name (SrcFile fi content open_fails fault) = fi_name fi"
| "src_name (SrcDir fi err children) = fi_name fi"
| "src_name (SrcLink fi lnk) = fi_name fi"
| "src_name (SrcSpecial fi sp) = fi_name fi"

fun IsRegular :: "src \<Rightarrow> bool" where
  "IsRegular (SrcFile fi content open_fails fault) = True"
| "IsRegular n = False"

fun IsDir :: "src \<Rightarrow> bool" where
  "IsDir (SrcDir fi err children) = True"
| "IsDir n = False"

fun IsSymlink :: "src \<Rightarrow> bool" where
  "IsSymlink (SrcLink fi lnk) = True"
| "IsSymlink n = False"

text \<open>
  The environment of \<open>Create\<close>: the platform, the tree behind each source path
  (\<^verbatim>\<open>Lstat\<close> of a path without one fails), and the headers \<^verbatim>\<open>tar.Writer\<close> refuses.
\<close>

record src_env =
  src_windows :: bool
  src_tree :: "path \<Rightarrow> src option"
  refused :: "header \<Rightarrow> bool"

text \<open>What has been given to the \<^verbatim>\<open>tar.Writer\<close>: headers and file data, in order.\<close>

datatype tar_record = THeader header | TData bytes

text \<open>
  \<^verbatim>\<open>tar.FileInfoHeader(fi, link)\<close>: name, modification time and permission bits from the
  file, the type and the size or link name by the kind of file (a socket has no header),
  the fields of \<^verbatim>\<open>Stat_t\<close> where there is one; the format is left unset.
\<close>

definition base_header :: "fileinfo \<Rightarrow> header" where
  "base_header fi =
     \<lparr>Typeflag = TypeReg, Name = fi_name fi, Linkname = [], Size = 0, Mode = fi_perm fi,
      Uid = 0, Gid = 0, ModTime = fi_modtime fi, AccessTime = 0, ChangeTime = 0,
      Format = FormatUnknown\<rparr>"

definition sysStat :: "fileinfo \<Rightarrow> header \<Rightarrow> header" where
  "sysStat fi h =
     (case fi_sys fi of
        None \<Rightarrow> h
      | Some st \<Rightarrow> h\<lparr>Uid := st_uid st, Gid := st_gid st,
                      AccessTime := st_atime st, ChangeTime := st_ctime st\<rparr>)"

fun FileInfoHeader :: "src \<Rightarrow> string \<Rightarrow> error + header" where
  "FileInfoHeader (SrcFile fi content open_fails fault) link =
     Inr (sysStat fi ((base_header fi)\<lparr>Typeflag := TypeReg, Size := fi_size fi\<rparr>))"
| "FileInfoHeader (SrcDir fi err children) link =
     Inr (sysStat fi ((base_header fi)\<lparr>Typeflag := TypeDir, Name := fi_name fi @ ''/''\<rparr>))"
| "FileInfoHeader (SrcLink fi lnk) link =
     Inr (sysStat fi ((base_header fi)\<lparr>Typeflag := TypeSymlink, Linkname := link\<rparr>))"
| "FileInfoHeader (SrcSpecial fi CharDevice) link =
     Inr (sysStat fi ((base_header fi)\<lparr>Typeflag := TypeChar\<rparr>))"
| "FileInfoHeader (SrcSpecial fi BlockDevice) link =
     Inr (sysStat fi ((base_header fi)\<lparr>Typeflag := TypeBlock\<rparr>))"
| "FileInfoHeader (SrcSpecial fi NamedPipe) link =
     Inr (sysStat fi ((base_header fi)\<lparr>Typeflag := TypeFifo\<rparr>))"
| "FileInfoHeader (SrcSpecial fi Socket) link = Inl ErrOs"
| "FileInfoHeader (SrcGone name) link = Inl ErrOs"

text \<open>\<^verbatim>\<open>createSymlinkHeader(fi, path)\<close>.\<close>

fun Readlink :: "src \<Rightarrow> error + string" where
  "Readlink (SrcLink fi (Some lnk)) = Inr lnk"
| "Readlink n = Inl ErrOs"

definition createSymlinkHeader :: "src \<Rightarrow> error + header" where
  "createSymlinkHeader n =
     (case Readlink n of
        Inl e \<Rightarrow> Inl (ErrReadLink e)
      | Inr lnk \<Rightarrow>
          (case FileInfoHeader n lnk of
             Inl e \<Rightarrow> Inl (ErrCreateSymlinkHeader e)
           | Inr h \<Rightarrow> Inr h))"

text \<open>
  \<^verbatim>\<open>writeFileToArchive(tw, path)\<close>: opens the file and copies it to the writer; returns
  the bytes copied, also when the copy breaks. (Closing the source file is left out.)
\<close>

fun writeFileToArchive :: "src \<Rightarrow> tar_record list \<Rightarrow> (int \<times> error option) \<times> tar_record list" where
  "writeFileToArchive (SrcFile fi content open_fails fault) tw =
     (if open_fails then ((0, Some (ErrOpenFile ErrOs)), tw)
      else (case fault of
              Some k \<Rightarrow> ((int (length (take k content)), Some (ErrCopyToTarball ErrOs)),
                         tw @ [TData (take k content)])
            | None \<Rightarrow> ((int (length content), None), tw @ [TData content])))"
| "writeFileToArchive n tw = ((0, Some (ErrOpenFile ErrOs)), tw)"

text \<open>
  The function \<^verbatim>\<open>writeToArchive\<close> returns, called by the walk for every file with its
  path, its \<^verbatim>\<open>FileInfo\<close> (none when \<^verbatim>\<open>Lstat\<close> failed) and the error of the walk. The state
  is what the writer has been given and the counter \<^verbatim>\<open>*written\<close>.
\<close>

definition writeToArchive ::
  "src_env \<Rightarrow> path \<Rightarrow> bool \<Rightarrow> bool \<Rightarrow> bool \<Rightarrow> path \<Rightarrow> src \<Rightarrow> error option
     \<Rightarrow> tar_record list \<times> int \<Rightarrow> error option \<times> (tar_record list \<times> int)" where
  "writeToArchive env root skipSymlinks isRelativePath preserveMetadata p n err st =
     (case err of
        Some e \<Rightarrow> (Some e, st)
      | None \<Rightarrow>
     (case info n of
        None \<Rightarrow> (Some ErrNoFileInfo, st)
      | Some fi \<Rightarrow>
     (case FileInfoHeader n (fi_name fi) of
        Inl e \<Rightarrow> (Some (ErrCreateHeader e), st)
      | Inr h \<Rightarrow>
     (let h = (if preserveMetadata
               then (let h = h\<lparr>Format := FormatPAX\<rparr>
                     in if \<not> src_windows env
                        then (case fi_sys fi of
                                Some stat \<Rightarrow>
                                  h\<lparr>Uid := st_uid stat, Gid := st_gid stat,
                                    AccessTime := fi_modtime fi, ChangeTime := fi_modtime fi\<rparr>
                              | None \<Rightarrow> h)
                        else h)
               else h)
      in if IsSymlink n \<and> skipSymlinks then (None, st)
         else
     (case (if IsSymlink n then createSymlinkHeader n else Inr h) of
        Inl e \<Rightarrow> (Some (ErrSymlinkHeader e), st)
      | Inr h \<Rightarrow>
     (case (if IsAbs p then Inr (Clean p)
            else if isRelativePath then Inr p
            else relative root p) of
        Inl e \<Rightarrow> (Some (ErrRelativeName e), st)
      | Inr name \<Rightarrow>
     (let h = h\<lparr>Name := name\<rparr>
      in if refused env h then (Some (ErrWriteHeader ErrOs), st)
         else
     (let tw = fst st @ [THeader h]
      in if \<not> IsRegular n then (None, (tw, snd st))
         else
     (case writeFileToArchive n tw of
        ((k, Some e), tw') \<Rightarrow> (Some (ErrWriteFile e), (tw', snd st))
      | ((k, None), tw') \<Rightarrow> (None, (tw', snd st + k)))))))))))"

text \<open>
  \<^verbatim>\<open>filepath.Walk(root, fn)\<close>: the function is called for the root and, below a
  directory that could be read and for which the function returned no error, for every
  child in the order of the names, the path of a child being the path of its directory
  joined with its name. The first error the function returns ends the walk.
\<close>

type_synonym 'st walk_fn = "path \<Rightarrow> src \<Rightarrow> error option \<Rightarrow> 'st \<Rightarrow> error option \<times> 'st"

fun walk :: "'st walk_fn \<Rightarrow> path \<Rightarrow> src \<Rightarrow> 'st \<Rightarrow> error option \<times> 'st"
  and walk_children :: "'st walk_fn \<Rightarrow> path \<Rightarrow> src list \<Rightarrow> 'st \<Rightarrow> error option \<times> 'st" where
  "walk fn p (SrcDir fi err children) st =
     (case fn p (SrcDir fi err children) err st of
        (Some e1, st1) \<Rightarrow> (Some e1, st1)
      | (None, st1) \<Rightarrow>
          (if err \<noteq> None then (None, st1) else walk_children fn p children st1))"
| "walk fn p (SrcGone name) st = fn p (SrcGone name) (Some ErrOs) st"
| "walk fn p (SrcFile fi content open_fails fault) st =
     fn p (SrcFile fi content open_fails fault) None st"
| "walk fn p (SrcLink fi lnk) st = fn p (SrcLink fi lnk) None st"
| "walk fn p (SrcSpecial fi sp) st = fn p (SrcSpecial fi sp) None st"
| "walk_children fn p [] st = (None, st)"
| "walk_children fn p (c # cs) st =
     (case walk fn (Join [p, src_name c]) c st of
        (Some e, st1) \<Rightarrow> (Some e, st1)
      | (None, st1) \<Rightarrow> walk_children fn p cs st1)"

text \<open>\<^verbatim>\<open>Create(srcs, w, isRelativePath)\<close>: the loop over the sources.\<close>

fun create_loop ::
  "src_env \<Rightarrow> path \<Rightarrow> bool \<Rightarrow> bool \<Rightarrow> bool \<Rightarrow> path list \<Rightarrow> tar_record list \<times> int
     \<Rightarrow> (int \<times> error option) \<times> tar_record list" where
  "create_loop env root skipSymlinks preserveMetadata isRelativePath [] st =
     ((snd st, None), fst st)"
| "create_loop env root skipSymlinks preserveMetadata isRelativePath (src # srcs) st =
     (case src_tree env src of
        None \<Rightarrow> ((snd st, Some ErrSourceNotReachable), fst st)
      | Some n \<Rightarrow>
          (case walk (writeToArchive env root skipSymlinks isRelativePath preserveMetadata) src n st of
             (Some e, st1) \<Rightarrow> ((snd st1, Some (ErrWalk e)), fst st1)
           | (None, st1) \<Rightarrow>
               create_loop env root skipSymlinks preserveMetadata isRelativePath srcs st1))"

definition Create ::
  "src_env \<Rightarrow> path \<Rightarrow> bool \<Rightarrow> bool \<Rightarrow> path list \<Rightarrow> bool
     \<Rightarrow> (int \<times> error option) \<times> tar_record list" where
  "Create env root skipSymlinks preserveMetadata srcs isRelativePath =
     create_loop env root skipSymlinks preserveMetadata isRelativePath srcs ([], 0)"

text \<open>The headers and the file data among what the writer was given.\<close>

fun headers :: "tar_record list \<Rightarrow> header list" where
  "headers [] = []"
| "headers (THeader h # rs) = h # headers rs"
| "headers (TData bs # rs) = headers rs"

fun data :: "tar_record list \<Rightarrow> bytes list" where
  "data [] = []"
| "data (THeader h # rs) = data rs"
| "data (TData bs # rs) = bs # data rs"

section \<open>Deferred directory metadata\<close>

text \<open>The record \<open>Extract\<close> keeps for a directory entry.\<close>

definition dir_record :: "header \<Rightarrow> dir_meta" where
  "dir_record h =
     \<lparr>dm_mode = Mode h, dm_at = AccessTime h, dm_mt = ModTime h, dm_uid = Uid h, dm_gid = Gid h\<rparr>"

text \<open>
  What one header does to the map of records when metadata is preserved, and the map
  at the end of a stream that is read to its end.
\<close>

definition record_dir :: "path \<Rightarrow> header \<Rightarrow> (path \<times> dir_meta) list \<Rightarrow> (path \<times> dir_meta) list" where
  "record_dir dst h dm =
     (if Typeflag h = TypeDir
      then (case entry_target dst h of
              Inl e \<Rightarrow> dm
            | Inr target \<Rightarrow> AList.update target (dir_record h) dm)
      else dm)"

fun pending :: "path \<Rightarrow> read_event list \<Rightarrow> (path \<times> dir_meta) list \<Rightarrow> (path \<times> dir_meta) list" where
  "pending dst [] dm = dm"
| "pending dst (Entry h payload fault # evs) dm = pending dst evs (record_dir dst h dm)"
| "pending dst (ev # evs) dm = pending dst evs dm"

text \<open>The destinations of the directory entries of a stream.\<close>

fun dir_targets :: "path \<Rightarrow> read_event list \<Rightarrow> path list" where
  "dir_targets dst [] = []"
| "dir_targets dst (Entry h payload fault # evs) =
     (if Typeflag h = TypeDir
      then (case entry_target dst h of
              Inl e \<Rightarrow> dir_targets dst evs
            | Inr target \<Rightarrow> target # dir_targets dst evs)
      else dir_targets dst evs)"
| "dir_targets dst (ev # evs) = dir_targets dst evs"

text \<open>The calls that apply the record of one directory.\<close>

definition dir_calls :: "os_env \<Rightarrow> (path \<times> dir_meta) list \<Rightarrow> path \<Rightarrow> syscall list" where
  "dir_calls env dm dir =
     (let meta = (case map_of dm dir of None \<Rightarrow> zero_meta | Some m \<Rightarrow> m)
      in SChmod dir (dm_mode meta) # SChtimes dir (dm_at meta) (dm_mt meta)
           # (if \<not> windows env then [SChown dir (dm_uid meta) (dm_gid meta)] else []))"

text \<open>
  Nesting of directories, as the specification means it: \<open>d'\<close> lies inside \<open>d\<close> when the
  elements of the cleaned \<open>d\<close> are a proper prefix of those of the cleaned \<open>d'\<close>.
\<close>

definition nested_in :: "path \<Rightarrow> path \<Rightarrow> bool" where
  "nested_in d' d =
     (IsAbs (Clean d') = IsAbs (Clean d) \<and> strict_prefix (elems (Clean d)) (elems (Clean d')))"

section \<open>Concrete environments, file systems and headers\<close>

text \<open>An environment in which no call fails, and the empty file system.\<close>

definition quiet_env :: os_env where
  "quiet_env =
     \<lparr>windows = False, fails = (\<lambda>_ _. False), clock = 0, euid = 0, egid = 0,
      range_rank = (\<lambda>_. 0)\<rparr>"

definition empty_fs :: fs where
  "empty_fs = \<lparr>names = Map.empty, inodes = Map.empty, fresh = 0, calls = []\<rparr>"

text \<open>A header of the given type and name, with mode 0644 (420) and nothing else set.\<close>

definition plain_header :: "typeflag \<Rightarrow> string \<Rightarrow> header" where
  "plain_header t n =
     \<lparr>Typeflag = t, Name = n, Linkname = [], Size = 0, Mode = 420, Uid = 0, Gid = 0,
      ModTime = 0, AccessTime = 0, ChangeTime = 0, Format = FormatUnknown\<rparr>"

text \<open>A file system that holds one file, \<open>/out/a\<close>, of eleven bytes.\<close>

definition one_file_fs :: fs where
  "one_file_fs =
     \<lparr>names = [''/out/a'' \<mapsto> 0],
      inodes = [0 \<mapsto> \<lparr>kind = KFile ''hello world'', perm = 420, atime = 0, mtime = 0,
                       uid = 0, gid = 0\<rparr>],
      fresh = 1, calls = []\<rparr>"

text \<open>The header of a symbolic link at \<open>/out/a\<close> that points to \<open>target.txt\<close>.\<close>

definition link_header :: header where
  "link_header = (plain_header TypeSymlink ''/out/a'')\<lparr>Linkname := ''target.txt'', Uid := 1000, Gid := 1000\<rparr>"

text \<open>
  Two streams: a small tree under a relative root, and two directories with absolute
  names of which the outer one is written with repeated separators.
\<close>

definition tree_stream :: "read_event list" where
  "tree_stream =
     [Entry (plain_header TypeDir ''x/a'') [] None,
      Entry (plain_header TypeDir ''x/a/b'') [] None,
      Entry (plain_header TypeReg ''x/a/b/f'') ''xyz'' None]"

definition unclean_stream :: "read_event list" where
  "unclean_stream =
     [Entry (plain_header TypeDir ''/a/b/c'') [] None,
      Entry (plain_header TypeDir ''/a//////b'') [] None]"

text \<open>
  Source files: \<open>/src/a\<close> of five bytes, \<open>/src/b\<close> of eight bytes whose copy breaks
  after three, and the symbolic link \<open>/src/l\<close>; an environment for \<open>Create\<close> over them in
  which the writer refuses no header.
\<close>

definition plain_info :: "string \<Rightarrow> int \<Rightarrow> fileinfo" where
  "plain_info name sz =
     \<lparr>fi_name = name, fi_size = sz, fi_perm = 420, fi_modtime = 1000,
      fi_sys = Some \<lparr>st_uid = 1000, st_gid = 1000, st_atime = 2000, st_ctime = 3000\<rparr>\<rparr>"

definition src_files :: "path \<Rightarrow> src option" where
  "src_files p =
     (if p = ''/src/a'' then Some (SrcFile (plain_info ''a'' 5) ''hello'' False None)
      else if p = ''/src/b'' then Some (SrcFile (plain_info ''b'' 8) ''12345678'' False (Some 3))
      else if p = ''/src/l'' then Some (SrcLink (plain_info ''l'' 0) (Some ''a''))
      else None)"

definition src_quiet_env :: src_env where
  "src_quiet_env = \<lparr>src_windows = False, src_tree = src_files, refused = (\<lambda>h. False)\<rparr>"

text \<open>A stream of a directory and a file with absolute names.\<close>

definition outside_stream :: "read_event list" where
  "outside_stream =
     [Entry (plain_header TypeDir ''/etc/x'') [] None,
      Entry (plain_header TypeReg ''/etc/passwd'') ''abc'' None]"

lemmas path_defs =
  Clean_def Base_def Dir_def upto_last_sep_def elems_def IsAbs_def ToSlash_def
  TrimPrefix_def HasPrefix_def Rel_def relative_def strip_dotdot.simps

lemmas os_defs =
  key_def lookup_def failing_def record_call_def new_inode_def create_def update_inode_def
  Lstat_def Remove_def ancestors_def MkdirAll_def OpenFile_def overwrite_def write_file_def
  Close_def Symlink_def Link_def apply_meta_def Chmod_def Chtimes_def Chown_def Lchown_def

lemmas extract_defs =
  defaultDirPermission_def zero_meta_def unlink_def extractDir_def restore_metadata_def
  IsZero_def extractRegular_def extractSymlink_def extractLink_def entry_target_def
  extract_entry_def
  apply_dir_meta_def range_keys_def flush_order_def sort_dirs_def Extract_def

lemmas fixture_defs = quiet_env_def empty_fs_def plain_header_def one_file_fs_def

lemmas flush_defs = dir_record_def record_dir_def dir_calls_def nested_in_def
  tree_stream_def unclean_stream_def sort_inner.simps sort_outer.simps

lemmas create_defs =
  base_header_def sysStat_def createSymlinkHeader_def writeToArchive_def Create_def
  plain_info_def src_files_def src_quiet_env_def

section \<open>Failures of metadata calls\<close>

text \<open>The calls that apply metadata.\<close>

fun is_meta :: "syscall \<Rightarrow> bool" where
  "is_meta (SChmod p m) = True"
| "is_meta (SChtimes p a m) = True"
| "is_meta (SChown p u g) = True"
| "is_meta (SLchown p u g) = True"
| "is_meta c = False"

text \<open>The same environment, in which no call that applies metadata fails.\<close>

definition meta_succeeds :: "os_env \<Rightarrow> os_env" where
  "meta_succeeds env = env\<lparr>fails := (\<lambda>n c. \<not> is_meta c \<and> fails env n c)\<rparr>"

text \<open>
  Two file systems with the same names, the same record of calls, and inodes of the same
  kinds and contents: they differ in modes, times and ownership at most.
\<close>

definition same_content :: "fs \<Rightarrow> fs \<Rightarrow> bool" where
  "same_content s t =
     (names s = names t \<and> fresh s = fresh t \<and> calls s = calls t
      \<and> (\<forall>i. map_option kind (inodes s i) = map_option kind (inodes t i)))"

text \<open>Two environments that differ in the failures of metadata calls at most.\<close>

definition agree :: "os_env \<Rightarrow> os_env \<Rightarrow> bool" where
  "agree e e' =
     (windows e' = windows e \<and> clock e' = clock e \<and> euid e' = euid e \<and> egid e' = egid e
      \<and> range_rank e' = range_rank e
      \<and> (\<forall>n c. \<not> is_meta c \<longrightarrow> fails e' n c = fails e n c))"

text \<open>An environment in which every call that applies metadata fails, and no other.\<close>

definition denying_env :: os_env where
  "denying_env = quiet_env\<lparr>fails := (\<lambda>n c. is_meta c)\<rparr>"

section \<open>Facts about the system calls and the record of calls\<close>

lemma calls_create [simp]: "calls (create env q k m s) = calls s"
  by (simp add: create_def)

lemma calls_update_inode [simp]: "calls (update_inode p f s) = calls s"
  by (simp add: update_inode_def split: option.splits)

lemma calls_record_call [simp]: "calls (record_call c s) = calls s @ [c]"
  by (simp add: record_call_def)

lemma calls_mkdirs [simp]: "calls (snd (mkdirs env m qs s)) = calls s"
  by (induction qs arbitrary: s) (auto split: option.splits)

lemma calls_Lstat [simp]: "calls (snd (Lstat env p s)) = calls s @ [SLstat p]"
  by (simp add: Lstat_def)

lemma calls_Remove [simp]: "calls (snd (Remove env p s)) = calls s @ [SRemove p]"
  by (simp add: Remove_def Let_def)

lemma calls_MkdirAll [simp]: "calls (snd (MkdirAll env p m s)) = calls s @ [SMkdirAll p m]"
  by (simp add: MkdirAll_def Let_def)

lemma calls_OpenFile [simp]: "calls (snd (OpenFile env p m s)) = calls s @ [SOpenFile p m]"
  by (simp add: OpenFile_def Let_def split: option.splits kind.splits)

lemma calls_write_file [simp]: "calls (write_file env p bs s) = calls s @ [SWrite p bs]"
  by (simp add: write_file_def)

lemma calls_Close [simp]: "calls (snd (Close env p s)) = calls s @ [SClose p]"
  by (simp add: Close_def)

lemma calls_Symlink [simp]: "calls (snd (Symlink env old new s)) = calls s @ [SSymlink old new]"
  by (simp add: Symlink_def Let_def)

lemma calls_Link [simp]: "calls (snd (Link env old new s)) = calls s @ [SLink old new]"
  by (simp add: Link_def Let_def split: option.splits)

lemma calls_apply_meta [simp]: "calls (snd (apply_meta env c p f s)) = calls s @ [c]"
  by (simp add: apply_meta_def Let_def)

lemma calls_unlink:
  "calls (snd (unlink env p s)) = calls s @ SLstat p # (if fst (Lstat env p s) then [SRemove p] else [])"
  by (auto simp: unlink_def split: prod.splits bool.splits) (metis calls_Lstat snd_conv append.assoc append_Cons append_Nil fst_conv)+

lemma lookup_record_call [simp]: "lookup (record_call c s) p = lookup s p"
  by (simp add: lookup_def record_call_def split: option.splits)

lemma names_record_call [simp]: "names (record_call c s) = names s"
  by (simp add: record_call_def)

lemma inodes_record_call [simp]: "inodes (record_call c s) = inodes s"
  by (simp add: record_call_def)

lemma fresh_record_call [simp]: "fresh (record_call c s) = fresh s"
  by (simp add: record_call_def)

lemma lookup_create_same [simp]: "lookup (create env (key p) k m s) p = Some (new_inode env k m)"
  by (simp add: lookup_def create_def)

lemma names_create_same [simp]: "names (create env q k m s) q = Some (fresh s)"
  by (simp add: create_def)

lemma lookup_update_inode_same [simp]:
  "lookup (update_inode p f s) p = map_option f (lookup s p)"
  by (auto simp: lookup_def update_inode_def split: option.splits)

lemma names_update_inode [simp]: "names (update_inode p f s) = names s"
  by (simp add: update_inode_def split: option.splits)

lemma Lstat_absent: "lookup s p = None \<Longrightarrow> \<not> fst (Lstat env p s)"
  by (simp add: Lstat_def)

lemma unlink_if:
  "unlink env p s =
     (if fst (Lstat env p s) then Remove env p (record_call (SLstat p) s)
      else (None, record_call (SLstat p) s))"
  by (simp add: unlink_def Lstat_def split: prod.splits bool.splits)

lemma unlink_no_entry:
  "\<not> fst (Lstat env p s) \<Longrightarrow> unlink env p s = (None, record_call (SLstat p) s)"
  by (simp add: unlink_if)

lemma Symlink_ok:
  "Symlink env old new s = (None, s') \<Longrightarrow>
     s' = create env (key new) (KSymlink old) 511 (record_call (SSymlink old new) s)"
  by (auto simp: Symlink_def Let_def split: if_splits)

lemma fresh_unlink [simp]: "fresh (snd (unlink env p s)) = fresh s"
  by (simp add: unlink_if Remove_def Let_def)

lemma lookup_apply_meta_same:
  "lookup (snd (apply_meta env c p f s)) p =
     (if failing env s c then lookup s p else map_option f (lookup s p))"
  by (auto simp: apply_meta_def Let_def)


lemma calls_restore_metadata [simp]:
  "calls (restore_metadata env h target s) =
     calls s @ SChmod target (Mode h)
       # SChtimes target (if IsZero (AccessTime h) then ModTime h else AccessTime h) (ModTime h)
       # (if \<not> windows env then [SChown target (Uid h) (Gid h)] else [])"
  by (simp add: restore_metadata_def Let_def Chmod_def Chtimes_def Chown_def)

lemma calls_apply_dir_meta [simp]:
  "calls (apply_dir_meta env dir meta s) =
     calls s @ SChmod dir (dm_mode meta) # SChtimes dir (dm_at meta) (dm_mt meta)
       # (if \<not> windows env then [SChown dir (dm_uid meta) (dm_gid meta)] else [])"
  by (simp add: apply_dir_meta_def Let_def Chmod_def Chtimes_def Chown_def)

lemma prefix_flush_dirs: "prefix (calls s) (calls (flush_dirs env dm ds s))"
proof (induction ds arbitrary: s)
  case Nil
  then show ?case by simp
next
  case (Cons d ds)
  have "prefix (calls s) (calls (apply_dir_meta env d (case map_of dm d of None \<Rightarrow> zero_meta | Some m \<Rightarrow> m) s))"
    by simp
  with Cons.IH show ?case
    by (simp only: flush_dirs.simps Let_def) (rule prefix_order.trans)
qed

lemma prefix_extractRegular:
  "prefix (calls s @ [SOpenFile target (Mode h)])
     (calls (snd (extractRegular env h payload fault target pm s)))"
proof -
  obtain r s1 where o: "OpenFile env target (Mode h) s = (r, s1)"
    by (cases "OpenFile env target (Mode h) s")
  then have c: "calls s1 = calls s @ [SOpenFile target (Mode h)]"
    using calls_OpenFile [of env target "Mode h" s] by simp
  show ?thesis
    using o c
    by (cases r; cases fault)
       (simp_all add: extractRegular_def Let_def Close_def)
qed

lemma prefix_extractSymlink:
  "prefix (calls s) (calls (snd (extractSymlink env h target pm s)))"
proof -
  obtain r s1 where u: "unlink env target s = (r, s1)"
    by (cases "unlink env target s")
  then have c: "prefix (calls s) (calls s1)"
    using calls_unlink [of env target s] by simp
  obtain r2 s2 where l: "Symlink env (Linkname h) target s1 = (r2, s2)"
    by (cases "Symlink env (Linkname h) target s1")
  then have c2: "calls s2 = calls s1 @ [SSymlink (Linkname h) target]"
    using calls_Symlink [of env "Linkname h" target s1] by simp
  show ?thesis
    using u l c c2
    by (cases r; cases r2)
       (auto simp: extractSymlink_def Lchown_def intro: prefix_order.trans)
qed

lemma prefix_extractLink:
  "prefix (calls s) (calls (snd (extractLink env h target pm s)))"
proof -
  obtain r s1 where u: "unlink env target s = (r, s1)"
    by (cases "unlink env target s")
  then have c: "prefix (calls s) (calls s1)"
    using calls_unlink [of env target s] by simp
  obtain r2 s2 where l: "Link env (Linkname h) target s1 = (r2, s2)"
    by (cases "Link env (Linkname h) target s1")
  then have c2: "calls s2 = calls s1 @ [SLink (Linkname h) target]"
    using calls_Link [of env "Linkname h" target s1] by simp
  show ?thesis
    using u l c c2
    by (cases r; cases r2)
       (auto simp: extractLink_def intro: prefix_order.trans)
qed

lemma prefix_extractDir:
  "prefix (calls s) (calls (snd (extractDir env h target s)))"
proof -
  obtain r s1 where m: "MkdirAll env target (Mode h) s = (r, s1)"
    by (cases "MkdirAll env target (Mode h) s")
  then have "calls s1 = calls s @ [SMkdirAll target (Mode h)]"
    using calls_MkdirAll [of env target "Mode h" s] by simp
  with m show ?thesis
    by (cases r) (simp_all add: extractDir_def)
qed

lemma MkdirAll_callsD:
  "MkdirAll env p m s = (r, s1) \<Longrightarrow> calls s1 = calls s @ [SMkdirAll p m]"
  using calls_MkdirAll [of env p m s] by simp

lemma extractDir_callsD:
  "extractDir env h target s = (r, s1) \<Longrightarrow> prefix (calls s) (calls s1)"
  using prefix_extractDir [of s env h target] by simp

lemma extractRegular_callsD:
  "extractRegular env h payload fault target pm s = (r, s1) \<Longrightarrow>
     prefix (calls s @ [SOpenFile target (Mode h)]) (calls s1)"
  using prefix_extractRegular [of s target h env payload fault pm] by simp

lemma extractSymlink_callsD:
  "extractSymlink env h target pm s = (r, s1) \<Longrightarrow> prefix (calls s) (calls s1)"
  using prefix_extractSymlink [of s env h target pm] by simp

lemma extractLink_callsD:
  "extractLink env h target pm s = (r, s1) \<Longrightarrow> prefix (calls s) (calls s1)"
  using prefix_extractLink [of s env h target pm] by simp

lemma extractRegular_callsD':
  "extractRegular env h payload fault target pm s = (r, s1) \<Longrightarrow> prefix (calls s) (calls s1)"
  by (drule extractRegular_callsD) (rule append_prefixD)

lemma MkdirAll_prefixD:
  "MkdirAll env p m s = (r, s1) \<Longrightarrow> prefix (calls s) (calls s1)"
  by (drule MkdirAll_callsD) simp

lemma extract_entry_after_parent:
  assumes t: "entry_target dst h = Inr target"
    and m: "MkdirAll env (Dir target) defaultDirPermission s = (None, s1)"
  shows "prefix (calls s1) (calls (step_fs (extract_entry env pm dst h payload fault w dm s)))"
proof -
  consider (dir) "Typeflag h = TypeDir"
    | (reg) "Typeflag h \<in> {TypeReg, TypeRegA, TypeChar, TypeBlock, TypeFifo}"
    | (sym) "Typeflag h = TypeSymlink"
    | (lnk) "Typeflag h = TypeLink"
    | (other) "Typeflag h \<notin> {TypeDir, TypeReg, TypeRegA, TypeChar, TypeBlock, TypeFifo,
                             TypeSymlink, TypeLink}"
    by blast
  then show ?thesis
  proof cases
    case dir
    show ?thesis
    proof (cases pm)
      case True
      obtain r2 s2 where m2: "MkdirAll env target defaultDirPermission s1 = (r2, s2)"
        by (cases "MkdirAll env target defaultDirPermission s1")
      from MkdirAll_prefixD [OF m2] show ?thesis
        using t m dir True m2 by (cases r2) (simp_all add: extract_entry_def Let_def)
    next
      case False
      obtain r2 s2 where m2: "extractDir env h target s1 = (r2, s2)"
        by (cases "extractDir env h target s1")
      from extractDir_callsD [OF m2] show ?thesis
        using t m dir False m2 by (cases r2) (simp_all add: extract_entry_def)
    qed
  next
    case reg
    obtain n r2 s2 where m2: "extractRegular env h payload fault target pm s1 = ((n, r2), s2)"
      by (cases "extractRegular env h payload fault target pm s1") auto
    from extractRegular_callsD' [OF m2] show ?thesis
      using t m reg m2 by (cases r2) (auto simp: extract_entry_def)
  next
    case sym
    obtain r2 s2 where m2: "extractSymlink env h target pm s1 = (r2, s2)"
      by (cases "extractSymlink env h target pm s1")
    from extractSymlink_callsD [OF m2] show ?thesis
      using t m sym m2 by (cases r2) (simp_all add: extract_entry_def)
  next
    case lnk
    obtain r2 s2 where m2: "extractLink env h target pm s1 = (r2, s2)"
      by (cases "extractLink env h target pm s1")
    from extractLink_callsD [OF m2] show ?thesis
      using t m lnk m2 by (cases r2) (simp_all add: extract_entry_def)
  next
    case other
    then show ?thesis
      using t m by (simp add: extract_entry_def)
  qed
qed

lemma extract_entry_calls:
  assumes "entry_target dst h = Inr target"
  shows "prefix (calls s @ [SMkdirAll (Dir target) defaultDirPermission])
           (calls (step_fs (extract_entry env pm dst h payload fault w dm s)))"
proof -
  obtain r s1 where m: "MkdirAll env (Dir target) defaultDirPermission s = (r, s1)"
    by (cases "MkdirAll env (Dir target) defaultDirPermission s")
  from MkdirAll_callsD [OF m]
  have c1: "calls s1 = calls s @ [SMkdirAll (Dir target) defaultDirPermission]" .
  show ?thesis
  proof (cases r)
    case (Some e)
    with assms m c1 show ?thesis
      by (simp add: extract_entry_def)
  next
    case None
    with extract_entry_after_parent [OF assms, of env s s1 pm payload fault w dm] m c1
    show ?thesis by simp
  qed
qed

lemma extract_entry_calls_regular:
  assumes t: "entry_target dst h = Inr target"
    and reg: "Typeflag h \<in> {TypeReg, TypeRegA, TypeChar, TypeBlock, TypeFifo}"
    and ok: "fst (MkdirAll env (Dir target) defaultDirPermission s) = None"
  shows "prefix (calls s @ [SMkdirAll (Dir target) defaultDirPermission, SOpenFile target (Mode h)])
           (calls (step_fs (extract_entry env pm dst h payload fault w dm s)))"
proof -
  obtain s1 where m: "MkdirAll env (Dir target) defaultDirPermission s = (None, s1)"
    using ok by (cases "MkdirAll env (Dir target) defaultDirPermission s") auto
  from MkdirAll_callsD [OF m]
  have c1: "calls s1 = calls s @ [SMkdirAll (Dir target) defaultDirPermission]" .
  obtain n r2 s2 where x: "extractRegular env h payload fault target pm s1 = ((n, r2), s2)"
    by (cases "extractRegular env h payload fault target pm s1") auto
  from extractRegular_callsD [OF x] c1
  have c2: "prefix (calls s @ [SMkdirAll (Dir target) defaultDirPermission, SOpenFile target (Mode h)])
              (calls s2)"
    by simp
  have "step_fs (extract_entry env pm dst h payload fault w dm s) = s2"
    using t reg m x by (cases r2) (auto simp: extract_entry_def)
  with c2 show ?thesis by simp
qed

lemma extract_entry_prefix:
  "prefix (calls s) (calls (step_fs (extract_entry env pm dst h payload fault w dm s)))"
proof (cases "entry_target dst h")
  case (Inl e)
  then show ?thesis by (simp add: extract_entry_def)
next
  case (Inr target)
  from extract_entry_calls [OF this] show ?thesis
    by (rule append_prefixD)
qed

lemma prefix_extract_loop:
  "prefix (calls s) (calls (snd (extract_loop env pm dst evs w dm s)))"
proof (induction evs arbitrary: w dm s)
  case Nil
  then show ?case by (simp add: prefix_flush_dirs)
next
  case (Cons ev evs)
  show ?case
  proof (cases ev)
    case ReadError
    then show ?thesis by simp
  next
    case NilHeader
    then show ?thesis using Cons.IH by simp
  next
    case (Entry h payload fault)
    have p: "prefix (calls s) (calls (step_fs (extract_entry env pm dst h payload fault w dm s)))"
      by (rule extract_entry_prefix)
    show ?thesis
    proof (cases "extract_entry env pm dst h payload fault w dm s")
      case (Continue w' dm' s')
      with p Cons.IH [of s' w' dm'] Entry show ?thesis
        by (auto intro: prefix_order.trans)
    next
      case (Return r s')
      with p Entry show ?thesis by simp
    qed
  qed
qed

lemma prefix_extract_loop_entry:
  assumes "prefix xs (calls (step_fs (extract_entry env pm dst h payload fault w dm s)))"
  shows "prefix xs (calls (snd (extract_loop env pm dst (Entry h payload fault # evs) w dm s)))"
proof (cases "extract_entry env pm dst h payload fault w dm s")
  case (Continue w' dm' s')
  with assms prefix_extract_loop [of s' env pm dst evs w' dm'] show ?thesis
    by (auto intro: prefix_order.trans)
next
  case (Return r s')
  with assms show ?thesis by simp
qed

lemma unlink_ok_fresh:
  "unlink env p s = (r, s1) \<Longrightarrow> fresh s1 = fresh s"
  using fresh_unlink [of env p s] by simp

lemma unlink_callsD:
  "unlink env p s = (r, s1) \<Longrightarrow>
     calls s1 = calls s @ SLstat p # (if fst (Lstat env p s) then [SRemove p] else [])"
  using calls_unlink [of env p s] by simp

lemma fresh_create_inner [simp]: "fresh (create env q k m s) = Suc (fresh s)"
  by (simp add: create_def)

lemma extract_entry_symlink_payload:
  assumes "Typeflag h = TypeSymlink"
  shows "extract_entry env pm dst h payload fault w dm s = extract_entry env pm dst h [] None w dm s"
  using assms by (simp add: extract_entry_def split: sum.splits prod.splits option.splits)

section \<open>Extraction does not depend on the outcome of metadata calls\<close>

lemma agree_meta_succeeds: "agree env (meta_succeeds env)"
  by (simp add: agree_def meta_succeeds_def)

lemma same_content_refl [simp]: "same_content s s"
  by (simp add: same_content_def)

lemma same_content_sym: "same_content s t \<Longrightarrow> same_content t s"
  by (simp add: same_content_def)

lemma same_content_trans: "same_content s t \<Longrightarrow> same_content t u \<Longrightarrow> same_content s u"
  by (simp add: same_content_def)

lemma same_content_lookup:
  "same_content s t \<Longrightarrow> map_option kind (lookup s p) = map_option kind (lookup t p)"
  by (simp add: same_content_def lookup_def split: option.splits)

lemma same_content_lookup_None:
  "same_content s t \<Longrightarrow> (lookup s p = None) = (lookup t p = None)"
  using same_content_lookup [of s t p] by (metis map_option_is_None)

lemma same_content_failing:
  "agree e e' \<Longrightarrow> same_content s t \<Longrightarrow> \<not> is_meta c \<Longrightarrow> failing e' t c = failing e s c"
  by (simp add: agree_def same_content_def failing_def)

lemma same_content_record_call:
  "same_content s t \<Longrightarrow> same_content (record_call c s) (record_call c t)"
  by (simp add: same_content_def record_call_def)

lemma same_content_create:
  "agree e e' \<Longrightarrow> same_content s t \<Longrightarrow> same_content (create e q k m s) (create e' q k m t)"
  by (simp add: same_content_def create_def new_inode_def)

lemma same_content_update_inode:
  assumes "same_content s t"
    and "\<And>n m. kind n = kind m \<Longrightarrow> kind (f n) = kind (g m)"
  shows "same_content (update_inode p f s) (update_inode p g t)"
proof -
  have n: "names s = names t" using assms(1) by (simp add: same_content_def)
  have k: "map_option kind (inodes s i) = map_option kind (inodes t i)" for i
    using assms(1) by (simp add: same_content_def)
  show ?thesis
  proof (cases "names t (key p)")
    case None
    then show ?thesis using assms(1) n by (simp add: update_inode_def)
  next
    case (Some i)
    show ?thesis
    proof (cases "inodes s i")
      case None
      then have "inodes t i = None" using k [of i] by simp
      with None Some n assms(1) show ?thesis by (simp add: update_inode_def)
    next
      case (Some a)
      then obtain b where b: "inodes t i = Some b" and ab: "kind a = kind b"
        using k [of i] by (cases "inodes t i") auto
      from assms(2) [OF ab] have "kind (f a) = kind (g b)" .
      with Some b \<open>names t (key p) = Some i\<close> n assms(1) show ?thesis
        by (simp add: update_inode_def same_content_def)
    qed
  qed
qed

lemma same_content_update_inode_left:
  assumes "same_content s t" and "\<And>n. kind (f n) = kind n"
  shows "same_content (update_inode p f s) t"
proof -
  have "same_content (update_inode p f s) (update_inode p (\<lambda>n. n) s)"
    by (rule same_content_update_inode) (simp_all add: assms(2))
  moreover have "same_content (update_inode p (\<lambda>n. n) s) s"
    by (auto simp: update_inode_def same_content_def split: option.splits)
  ultimately show ?thesis
    using assms(1) by (blast intro: same_content_trans)
qed

lemma same_content_apply_meta_left:
  assumes "same_content s t" and "\<And>n. kind (f n) = kind n"
  shows "same_content (snd (apply_meta e c p f s)) (record_call c t)"
  using assms
  by (simp add: apply_meta_def Let_def same_content_record_call same_content_update_inode_left)

lemma same_content_apply_meta:
  assumes "same_content s t" and "\<And>n. kind (f n) = kind n"
  shows "same_content (snd (apply_meta e c p f s)) (snd (apply_meta e' c p f t))"
proof -
  have "same_content (snd (apply_meta e c p f s)) (record_call c t)"
    using assms by (rule same_content_apply_meta_left)
  moreover have "same_content (snd (apply_meta e' c p f t)) (record_call c t)"
    by (rule same_content_apply_meta_left) (simp_all add: assms(2))
  ultimately show ?thesis
    by (blast intro: same_content_trans same_content_sym)
qed

lemma same_content_Chmod:
  "same_content s t \<Longrightarrow> same_content (snd (Chmod e p m s)) (snd (Chmod e' p m t))"
  unfolding Chmod_def by (rule same_content_apply_meta) simp_all

lemma same_content_Chtimes:
  "same_content s t \<Longrightarrow> same_content (snd (Chtimes e p a m s)) (snd (Chtimes e' p a m t))"
  unfolding Chtimes_def by (rule same_content_apply_meta) simp_all

lemma same_content_Chown:
  "same_content s t \<Longrightarrow> same_content (snd (Chown e p u g s)) (snd (Chown e' p u g t))"
  unfolding Chown_def by (rule same_content_apply_meta) simp_all

lemma same_content_Lchown:
  "same_content s t \<Longrightarrow> same_content (snd (Lchown e p u g s)) (snd (Lchown e' p u g t))"
  unfolding Lchown_def by (rule same_content_apply_meta) simp_all

lemma same_content_restore_metadata:
  "agree e e' \<Longrightarrow> same_content s t \<Longrightarrow>
     same_content (restore_metadata e h target s) (restore_metadata e' h target t)"
  by (simp add: restore_metadata_def Let_def agree_def
        same_content_Chmod same_content_Chtimes same_content_Chown)

lemma same_content_apply_dir_meta:
  "agree e e' \<Longrightarrow> same_content s t \<Longrightarrow>
     same_content (apply_dir_meta e dir meta s) (apply_dir_meta e' dir meta t)"
  by (simp add: apply_dir_meta_def Let_def agree_def
        same_content_Chmod same_content_Chtimes same_content_Chown)

lemma same_content_flush_dirs:
  "agree e e' \<Longrightarrow> same_content s t \<Longrightarrow>
     same_content (flush_dirs e dm ds s) (flush_dirs e' dm ds t)"
  by (induction ds arbitrary: s t) (simp_all add: Let_def same_content_apply_dir_meta)

lemma sim_Lstat:
  assumes "agree e e'" and "same_content s t"
  shows "fst (Lstat e p s) = fst (Lstat e' p t)
       \<and> same_content (snd (Lstat e p s)) (snd (Lstat e' p t))"
  using assms same_content_failing [OF assms, of "SLstat p"]
        same_content_lookup_None [OF assms(2), of p]
  by (simp add: Lstat_def same_content_record_call)

lemma same_content_names_upd:
  "same_content s t \<Longrightarrow> names s0 = names t0 \<Longrightarrow>
     same_content (s\<lparr>names := (names s0)(q := v)\<rparr>) (t\<lparr>names := (names t0)(q := v)\<rparr>)"
  by (simp add: same_content_def)

lemma same_content_names: "same_content s t \<Longrightarrow> names s = names t"
  by (simp add: same_content_def)

lemma sim_Remove:
  assumes "agree e e'" and "same_content s t"
  shows "fst (Remove e p s) = fst (Remove e' p t)
       \<and> same_content (snd (Remove e p s)) (snd (Remove e' p t))"
  using assms same_content_failing [OF assms, of "SRemove p"]
        same_content_lookup_None [OF assms(2), of p]
  by (simp add: Remove_def Let_def same_content_record_call same_content_names_upd
        same_content_names)

lemma sim_mkdirs:
  assumes "agree e e'"
  shows "same_content s t \<Longrightarrow>
         fst (mkdirs e m qs s) = fst (mkdirs e' m qs t)
       \<and> same_content (snd (mkdirs e m qs s)) (snd (mkdirs e' m qs t))"
proof (induction qs arbitrary: s t)
  case Nil
  then show ?case by simp
next
  case (Cons q qs)
  have n: "names s q = names t q"
    using Cons.prems by (simp add: same_content_def)
  show ?case
  proof (cases "names t q")
    case None
    with n Cons.IH [OF same_content_create [OF assms Cons.prems, of q KDir m]]
    show ?thesis by simp
  next
    case (Some i)
    have k: "map_option kind (inodes s i) = map_option kind (inodes t i)"
      using Cons.prems by (simp add: same_content_def)
    show ?thesis
    proof (cases "inodes s i")
      case None
      with k have "inodes t i = None" by simp
      with None Some n Cons.prems show ?thesis by simp
    next
      case (Some a)
      with k obtain b where "inodes t i = Some b" "kind a = kind b"
        by (cases "inodes t i") auto
      with Some \<open>names t q = Some i\<close> n Cons.prems Cons.IH [OF Cons.prems]
      show ?thesis by simp
    qed
  qed
qed

lemma sim_MkdirAll:
  assumes "agree e e'" and "same_content s t"
  shows "fst (MkdirAll e p m s) = fst (MkdirAll e' p m t)
       \<and> same_content (snd (MkdirAll e p m s)) (snd (MkdirAll e' p m t))"
  using same_content_failing [OF assms, of "SMkdirAll p m"]
        sim_mkdirs [OF assms(1) same_content_record_call [OF assms(2)], of m "ancestors p" "SMkdirAll p m"]
        same_content_record_call [OF assms(2), of "SMkdirAll p m"]
  by (simp add: MkdirAll_def Let_def)

lemma sim_OpenFile:
  assumes "agree e e'" and "same_content s t"
  shows "fst (OpenFile e p m s) = fst (OpenFile e' p m t)
       \<and> same_content (snd (OpenFile e p m s)) (snd (OpenFile e' p m t))"
proof -
  note f = same_content_failing [OF assms, of "SOpenFile p m"]
  note r = same_content_record_call [OF assms(2), of "SOpenFile p m"]
  note c = same_content_create [OF assms(1) r, of "key p" "KFile []" m]
  have k: "map_option kind (lookup s p) = map_option kind (lookup t p)"
    using assms(2) by (rule same_content_lookup)
  show ?thesis
  proof (cases "lookup s p")
    case None
    with k have "lookup t p = None" by simp
    with None f r c show ?thesis by (simp add: OpenFile_def Let_def)
  next
    case (Some a)
    with k obtain b where "lookup t p = Some b" "kind a = kind b"
      by (cases "lookup t p") auto
    with Some f r show ?thesis
      by (simp add: OpenFile_def Let_def split: kind.splits)
  qed
qed

lemma sim_write_file:
  assumes "agree e e'" and "same_content s t"
  shows "same_content (write_file e p bs s) (write_file e' p bs t)"
  unfolding write_file_def
  by (rule same_content_update_inode [OF same_content_record_call [OF assms(2)]])
     (simp split: kind.splits)

lemma sim_Close:
  assumes "agree e e'" and "same_content s t"
  shows "fst (Close e p s) = fst (Close e' p t)
       \<and> same_content (snd (Close e p s)) (snd (Close e' p t))"
  using same_content_failing [OF assms, of "SClose p"] same_content_record_call [OF assms(2), of "SClose p"]
  by (simp add: Close_def)

lemma sim_Symlink:
  assumes "agree e e'" and "same_content s t"
  shows "fst (Symlink e old new s) = fst (Symlink e' old new t)
       \<and> same_content (snd (Symlink e old new s)) (snd (Symlink e' old new t))"
proof -
  note f = same_content_failing [OF assms, of "SSymlink old new"]
  note r = same_content_record_call [OF assms(2), of "SSymlink old new"]
  note c = same_content_create [OF assms(1) r, of "key new" "KSymlink old" 511]
  have n: "names s = names t" using assms(2) by (simp add: same_content_def)
  from f r c n show ?thesis
    by (simp add: Symlink_def Let_def)
qed

lemma sim_Link:
  assumes "agree e e'" and "same_content s t"
  shows "fst (Link e old new s) = fst (Link e' old new t)
       \<and> same_content (snd (Link e old new s)) (snd (Link e' old new t))"
proof -
  note f = same_content_failing [OF assms, of "SLink old new"]
  note r = same_content_record_call [OF assms(2), of "SLink old new"]
  have n: "names s = names t" using assms(2) by (simp add: same_content_def)
  have u: "same_content ((record_call (SLink old new) s)\<lparr>names := (names s)(key new \<mapsto> i)\<rparr>)
             ((record_call (SLink old new) t)\<lparr>names := (names t)(key new \<mapsto> i)\<rparr>)" for i
    using r n by (rule same_content_names_upd)
  show ?thesis
  proof (cases "names t (key old)")
    case None
    with f r n show ?thesis by (simp add: Link_def Let_def)
  next
    case (Some i)
    have k: "map_option kind (inodes s i) = map_option kind (inodes t i)"
      using assms(2) by (simp add: same_content_def)
    show ?thesis
    proof (cases "inodes s i")
      case None
      with k have "inodes t i = None" by simp
      with None Some f r n show ?thesis by (simp add: Link_def Let_def)
    next
      case (Some a)
      with k obtain b where "inodes t i = Some b" "kind a = kind b"
        by (cases "inodes t i") auto
      with Some \<open>names t (key old) = Some i\<close> f r n u [of i] show ?thesis
        by (simp add: Link_def Let_def)
    qed
  qed
qed

lemma sim_unlink:
  assumes "agree e e'" and "same_content s t"
  shows "fst (unlink e p s) = fst (unlink e' p t)
       \<and> same_content (snd (unlink e p s)) (snd (unlink e' p t))"
  using sim_Lstat [OF assms, of p]
        sim_Remove [OF assms(1) same_content_record_call [OF assms(2)], of p "SLstat p"]
        same_content_record_call [OF assms(2), of "SLstat p"]
  by (simp add: unlink_if)

lemma sim_extractDir:
  assumes "agree e e'" and "same_content s t"
  shows "fst (extractDir e h target s) = fst (extractDir e' h target t)
       \<and> same_content (snd (extractDir e h target s)) (snd (extractDir e' h target t))"
  using sim_MkdirAll [OF assms, of target "Mode h"]
  by (cases "MkdirAll e target (Mode h) s"; cases "MkdirAll e' target (Mode h) t")
     (auto simp: extractDir_def split: option.splits)

lemma sim_extractRegular:
  assumes a: "agree e e'" and r: "same_content s t"
  shows "fst (extractRegular e h payload fault target pm s)
           = fst (extractRegular e' h payload fault target pm t)
       \<and> same_content (snd (extractRegular e h payload fault target pm s))
           (snd (extractRegular e' h payload fault target pm t))"
proof -
  obtain o1 s1 where o: "OpenFile e target (Mode h) s = (o1, s1)"
    by (cases "OpenFile e target (Mode h) s")
  obtain o2 t1 where o': "OpenFile e' target (Mode h) t = (o2, t1)"
    by (cases "OpenFile e' target (Mode h) t")
  from sim_OpenFile [OF a r, of target "Mode h"] o o'
  have eq: "o2 = o1" and r1: "same_content s1 t1" by simp_all
  show ?thesis
  proof (cases o1)
    case (Some x)
    with o o' eq r1 show ?thesis by (simp add: extractRegular_def)
  next
    case None
    show ?thesis
    proof (cases fault)
      case (Some k)
      note w = sim_write_file [OF a r1, of target "take k payload"]
      from sim_Close [OF a w, of target] None Some o o' eq show ?thesis
        by (simp add: extractRegular_def Let_def)
    next
      case N: None
      note w = sim_write_file [OF a r1, of target payload]
      note m = same_content_restore_metadata [OF a w, of h target]
      show ?thesis
      proof (cases pm)
        case True
        from sim_Close [OF a m, of target] None N o o' eq True show ?thesis
          by (simp add: extractRegular_def Let_def case_prod_beta)
      next
        case False
        from sim_Close [OF a w, of target] None N o o' eq False show ?thesis
          by (simp add: extractRegular_def Let_def case_prod_beta)
      qed
    qed
  qed
qed

lemma sim_extractSymlink:
  assumes a: "agree e e'" and r: "same_content s t"
  shows "fst (extractSymlink e h target pm s) = fst (extractSymlink e' h target pm t)
       \<and> same_content (snd (extractSymlink e h target pm s))
           (snd (extractSymlink e' h target pm t))"
proof -
  obtain u1 s1 where u: "unlink e target s = (u1, s1)"
    by (cases "unlink e target s")
  obtain u2 t1 where u': "unlink e' target t = (u2, t1)"
    by (cases "unlink e' target t")
  from sim_unlink [OF a r, of target] u u'
  have eq: "u2 = u1" and r1: "same_content s1 t1" by simp_all
  obtain l1 s2 where l: "Symlink e (Linkname h) target s1 = (l1, s2)"
    by (cases "Symlink e (Linkname h) target s1")
  obtain l2 t2 where l': "Symlink e' (Linkname h) target t1 = (l2, t2)"
    by (cases "Symlink e' (Linkname h) target t1")
  from sim_Symlink [OF a r1, of "Linkname h" target] l l'
  have eq2: "l2 = l1" and r2: "same_content s2 t2" by simp_all
  have w: "windows e' = windows e" using a by (simp add: agree_def)
  note c = same_content_Lchown [OF r2, of e target "Uid h" "Gid h" e']
  from u u' eq r1 l l' eq2 r2 w c show ?thesis
    by (cases u1; cases l1) (simp_all add: extractSymlink_def)
qed

lemma sim_extractLink:
  assumes a: "agree e e'" and r: "same_content s t"
  shows "fst (extractLink e h target pm s) = fst (extractLink e' h target pm t)
       \<and> same_content (snd (extractLink e h target pm s))
           (snd (extractLink e' h target pm t))"
proof -
  obtain u1 s1 where u: "unlink e target s = (u1, s1)"
    by (cases "unlink e target s")
  obtain u2 t1 where u': "unlink e' target t = (u2, t1)"
    by (cases "unlink e' target t")
  from sim_unlink [OF a r, of target] u u'
  have eq: "u2 = u1" and r1: "same_content s1 t1" by simp_all
  obtain l1 s2 where l: "Link e (Linkname h) target s1 = (l1, s2)"
    by (cases "Link e (Linkname h) target s1")
  obtain l2 t2 where l': "Link e' (Linkname h) target t1 = (l2, t2)"
    by (cases "Link e' (Linkname h) target t1")
  from sim_Link [OF a r1, of "Linkname h" target] l l'
  have eq2: "l2 = l1" and r2: "same_content s2 t2" by simp_all
  note c = same_content_restore_metadata [OF a r2, of h target]
  from u u' eq r1 l l' eq2 r2 c show ?thesis
    by (cases u1; cases l1) (simp_all add: extractLink_def)
qed

text \<open>Two steps that agree but for the metadata their file systems hold.\<close>

fun same_step :: "step \<Rightarrow> step \<Rightarrow> bool" where
  "same_step (Continue w dm s) (Continue w' dm' t) = (w' = w \<and> dm' = dm \<and> same_content s t)"
| "same_step (Return r s) (Return r' t) = (r' = r \<and> same_content s t)"
| "same_step _ _ = False"

lemma sim_extract_entry:
  assumes a: "agree e e'" and r: "same_content s t"
  shows "same_step (extract_entry e pm dst h payload fault w dm s)
           (extract_entry e' pm dst h payload fault w dm t)"
proof (cases "entry_target dst h")
  case (Inl x)
  with r show ?thesis by (simp add: extract_entry_def)
next
  case (Inr target)
  obtain m1 s1 where m: "MkdirAll e (Dir target) defaultDirPermission s = (m1, s1)"
    by (cases "MkdirAll e (Dir target) defaultDirPermission s")
  obtain m2 t1 where m': "MkdirAll e' (Dir target) defaultDirPermission t = (m2, t1)"
    by (cases "MkdirAll e' (Dir target) defaultDirPermission t")
  from sim_MkdirAll [OF a r, of "Dir target" defaultDirPermission] m m'
  have eq: "m2 = m1" and r1: "same_content s1 t1" by simp_all
  show ?thesis
  proof (cases m1)
    case (Some x)
    with Inr m m' eq r1 show ?thesis by (simp add: extract_entry_def)
  next
    case None
    consider (dir) "Typeflag h = TypeDir"
      | (reg) "Typeflag h \<in> {TypeReg, TypeRegA, TypeChar, TypeBlock, TypeFifo}"
      | (sym) "Typeflag h = TypeSymlink"
      | (lnk) "Typeflag h = TypeLink"
      | (other) "Typeflag h \<notin> {TypeDir, TypeReg, TypeRegA, TypeChar, TypeBlock, TypeFifo,
                               TypeSymlink, TypeLink}"
      by blast
    then show ?thesis
    proof cases
      case dir
      show ?thesis
      proof (cases pm)
        case True
        obtain x1 s2 where x: "MkdirAll e target defaultDirPermission s1 = (x1, s2)"
          by (cases "MkdirAll e target defaultDirPermission s1")
        obtain x2 t2 where x': "MkdirAll e' target defaultDirPermission t1 = (x2, t2)"
          by (cases "MkdirAll e' target defaultDirPermission t1")
        from sim_MkdirAll [OF a r1, of target defaultDirPermission] x x'
        have "x2 = x1" "same_content s2 t2" by simp_all
        with Inr m m' eq None dir True x x' show ?thesis
          by (cases x1) (simp_all add: extract_entry_def Let_def)
      next
        case False
        obtain x1 s2 where x: "extractDir e h target s1 = (x1, s2)"
          by (cases "extractDir e h target s1")
        obtain x2 t2 where x': "extractDir e' h target t1 = (x2, t2)"
          by (cases "extractDir e' h target t1")
        from sim_extractDir [OF a r1, of h target] x x'
        have "x2 = x1" "same_content s2 t2" by simp_all
        with Inr m m' eq None dir False x x' show ?thesis
          by (cases x1) (simp_all add: extract_entry_def)
      qed
    next
      case reg
      obtain n x1 s2 where x: "extractRegular e h payload fault target pm s1 = ((n, x1), s2)"
        by (cases "extractRegular e h payload fault target pm s1") auto
      obtain n' x2 t2 where x': "extractRegular e' h payload fault target pm t1 = ((n', x2), t2)"
        by (cases "extractRegular e' h payload fault target pm t1") auto
      from sim_extractRegular [OF a r1, of h payload fault target pm] x x'
      have "n' = n" "x2 = x1" "same_content s2 t2" by simp_all
      with Inr m m' eq None reg x x' show ?thesis
        by (cases x1) (auto simp: extract_entry_def)
    next
      case sym
      obtain x1 s2 where x: "extractSymlink e h target pm s1 = (x1, s2)"
        by (cases "extractSymlink e h target pm s1")
      obtain x2 t2 where x': "extractSymlink e' h target pm t1 = (x2, t2)"
        by (cases "extractSymlink e' h target pm t1")
      from sim_extractSymlink [OF a r1, of h target pm] x x'
      have "x2 = x1" "same_content s2 t2" by simp_all
      with Inr m m' eq None sym x x' show ?thesis
        by (cases x1) (simp_all add: extract_entry_def)
    next
      case lnk
      obtain x1 s2 where x: "extractLink e h target pm s1 = (x1, s2)"
        by (cases "extractLink e h target pm s1")
      obtain x2 t2 where x': "extractLink e' h target pm t1 = (x2, t2)"
        by (cases "extractLink e' h target pm t1")
      from sim_extractLink [OF a r1, of h target pm] x x'
      have "x2 = x1" "same_content s2 t2" by simp_all
      with Inr m m' eq None lnk x x' show ?thesis
        by (cases x1) (simp_all add: extract_entry_def)
    next
      case other
      with Inr m m' eq None r1 show ?thesis
        by (simp add: extract_entry_def)
    qed
  qed
qed

lemma flush_order_agree: "agree e e' \<Longrightarrow> flush_order e' dm = flush_order e dm"
  by (simp add: flush_order_def range_keys_def agree_def)

lemma sim_extract_loop:
  assumes a: "agree e e'"
  shows "same_content s t \<Longrightarrow>
         fst (extract_loop e pm dst evs w dm s) = fst (extract_loop e' pm dst evs w dm t)
       \<and> same_content (snd (extract_loop e pm dst evs w dm s))
           (snd (extract_loop e' pm dst evs w dm t))"
proof (induction evs arbitrary: w dm s t)
  case Nil
  then show ?case
    by (simp add: flush_order_agree [OF a] same_content_flush_dirs [OF a])
next
  case (Cons ev evs)
  show ?case
  proof (cases ev)
    case ReadError
    with Cons.prems show ?thesis by simp
  next
    case NilHeader
    with Cons.IH [OF Cons.prems] show ?thesis by simp
  next
    case (Entry h payload fault)
    note st = sim_extract_entry [OF a Cons.prems, of pm dst h payload fault w dm]
    show ?thesis
    proof (cases "extract_entry e pm dst h payload fault w dm s")
      case (Continue w1 dm1 s1)
      with st obtain t1 where
        c': "extract_entry e' pm dst h payload fault w dm t = Continue w1 dm1 t1"
        and r1: "same_content s1 t1"
        by (cases "extract_entry e' pm dst h payload fault w dm t") auto
      from Cons.IH [OF r1, of w1 dm1] Entry Continue c' show ?thesis
        by simp
    next
      case (Return r1 s1)
      with st obtain t1 where
        c': "extract_entry e' pm dst h payload fault w dm t = Return r1 t1"
        and r1: "same_content s1 t1"
        by (cases "extract_entry e' pm dst h payload fault w dm t") auto
      with Entry Return show ?thesis by simp
    qed
  qed
qed

section \<open>The sort of the directories and the order of restoration\<close>

lemma mset_sort_inner: "i < j \<Longrightarrow> mset (sort_inner i j dirs) = mset dirs"
proof (induction i j dirs rule: sort_inner.induct)
  case (1 i j dirs)
  show ?case
  proof (cases "j < length dirs")
    case False
    then show ?thesis by (subst sort_inner.simps) simp
  next
    case True
    let ?d = "if length (dirs ! i) < length (dirs ! j)
              then dirs[i := dirs ! j, j := dirs ! i] else dirs"
    have "mset ?d = mset dirs"
      using True "1.prems" by (simp add: mset_swap)
    moreover have "mset (sort_inner i (Suc j) ?d) = mset ?d"
      using "1.IH" [OF True] "1.prems" by simp
    ultimately show ?thesis
      using True by (subst sort_inner.simps) simp
  qed
qed

lemma sort_inner_before: "k < i \<Longrightarrow> i < j \<Longrightarrow> sort_inner i j dirs ! k = dirs ! k"
proof (induction i j dirs rule: sort_inner.induct)
  case (1 i j dirs)
  show ?case
  proof (cases "j < length dirs")
    case False
    then show ?thesis by (subst sort_inner.simps) simp
  next
    case True
    let ?d = "if length (dirs ! i) < length (dirs ! j)
              then dirs[i := dirs ! j, j := dirs ! i] else dirs"
    have "?d ! k = dirs ! k"
      using "1.prems" by simp
    moreover have "sort_inner i (Suc j) ?d ! k = ?d ! k"
      using "1.IH" [OF True] "1.prems" by simp
    ultimately show ?thesis
      using True by (subst sort_inner.simps) simp
  qed
qed

lemma sort_inner_dominates:
  "i < j \<Longrightarrow> (\<forall>k. i < k \<and> k < j \<longrightarrow> length (dirs ! k) \<le> length (dirs ! i)) \<Longrightarrow>
   i < k \<Longrightarrow> k < length dirs \<Longrightarrow>
   length (sort_inner i j dirs ! k) \<le> length (sort_inner i j dirs ! i)"
proof (induction i j dirs rule: sort_inner.induct)
  case (1 i j dirs)
  show ?case
  proof (cases "j < length dirs")
    case False
    then show ?thesis
      using "1.prems" by (subst (1 2) sort_inner.simps) simp
  next
    case True
    let ?d = "if length (dirs ! i) < length (dirs ! j)
              then dirs[i := dirs ! j, j := dirs ! i] else dirs"
    have len: "length ?d = length dirs" by simp
    have inv: "\<forall>k. i < k \<and> k < Suc j \<longrightarrow> length (?d ! k) \<le> length (?d ! i)"
    proof (intro allI impI)
      fix k assume k: "i < k \<and> k < Suc j"
      show "length (?d ! k) \<le> length (?d ! i)"
      proof (cases "length (dirs ! i) < length (dirs ! j)")
        case False
        then show ?thesis
          using k "1.prems"(2) by (cases "k = j") auto
      next
        case sw: True
        have i: "?d ! i = dirs ! j"
          using sw True "1.prems"(1) by simp
        show ?thesis
        proof (cases "k = j")
          case True
          then show ?thesis using sw i \<open>j < length dirs\<close> by simp
        next
          case False
          then have "k < j" using k by simp
          then have "?d ! k = dirs ! k" using sw k by simp
          moreover have "length (dirs ! k) \<le> length (dirs ! i)"
            using "1.prems"(2) k \<open>k < j\<close> by simp
          ultimately show ?thesis using sw i by simp
        qed
      qed
    qed
    have "length (sort_inner i (Suc j) ?d ! k) \<le> length (sort_inner i (Suc j) ?d ! i)"
      using "1.IH" [OF True _ inv] "1.prems" len by simp
    then show ?thesis
      using True by (subst (1 2) sort_inner.simps) simp
  qed
qed

lemma take_sort_inner: "i < j \<Longrightarrow> take i (sort_inner i j dirs) = take i dirs"
  by (rule nth_equalityI) (simp_all add: length_sort_inner sort_inner_before)

lemma mset_drop_sort_inner:
  assumes "i < j"
  shows "mset (drop i (sort_inner i j dirs)) = mset (drop i dirs)"
proof -
  have "mset (take i (sort_inner i j dirs)) + mset (drop i (sort_inner i j dirs))
          = mset (take i dirs) + mset (drop i dirs)"
    using mset_sort_inner [OF assms, of dirs]
    by (metis append_take_drop_id mset_append)
  then show ?thesis
    by (simp add: take_sort_inner [OF assms])
qed

text \<open>Up to index \<open>i\<close> every element is at least as long as all that follow it.\<close>

definition settled :: "nat \<Rightarrow> path list \<Rightarrow> bool" where
  "settled i dirs =
     (\<forall>a b. a < i \<and> a < b \<and> b < length dirs \<longrightarrow> length (dirs ! b) \<le> length (dirs ! a))"

lemma settled_step:
  assumes s: "settled i dirs" and i: "i < length dirs"
  shows "settled (Suc i) (sort_inner i (Suc i) dirs)"
  unfolding settled_def
proof (intro allI impI)
  let ?r = "sort_inner i (Suc i) dirs"
  fix a b
  assume h: "a < Suc i \<and> a < b \<and> b < length ?r"
  then have b: "b < length dirs" by (simp add: length_sort_inner)
  show "length (?r ! b) \<le> length (?r ! a)"
  proof (cases "a = i")
    case True
    have "length (?r ! b) \<le> length (?r ! i)"
      by (rule sort_inner_dominates) (use h b True in auto)
    then show ?thesis using True by simp
  next
    case False
    then have a: "a < i" using h by simp
    then have ra: "?r ! a = dirs ! a"
      by (simp add: sort_inner_before)
    show ?thesis
    proof (cases "b < i")
      case True
      then have "?r ! b = dirs ! b" by (simp add: sort_inner_before)
      with ra s a h b show ?thesis by (simp add: settled_def)
    next
      case False
      then have ib: "i \<le> b" by simp
      have "drop i ?r ! (b - i) = ?r ! b"
        using ib b by (simp add: length_sort_inner)
      moreover have "b - i < length (drop i ?r)"
        using ib b i by (simp add: length_sort_inner)
      ultimately have "?r ! b \<in> set (drop i ?r)"
        by (metis nth_mem)
      then have "?r ! b \<in># mset (drop i dirs)"
        using mset_drop_sort_inner [of i "Suc i" dirs] by (metis lessI set_mset_mset)
      then have "?r ! b \<in> set (drop i dirs)" by simp
      then obtain n where n: "n < length dirs - i" "dirs ! (i + n) = ?r ! b"
        by (auto simp: in_set_conv_nth)
      then have "i \<le> i + n \<and> i + n < length dirs \<and> ?r ! b = dirs ! (i + n)"
        by simp
      then obtain c where c: "i \<le> c" "c < length dirs" "?r ! b = dirs ! c"
        by blast
      then have "length (dirs ! c) \<le> length (dirs ! a)"
        using s a by (simp add: settled_def)
      with c ra show ?thesis by simp
    qed
  qed
qed

lemma sort_outer_facts:
  "settled i dirs \<Longrightarrow>
     settled (length dirs) (sort_outer i dirs) \<and> mset (sort_outer i dirs) = mset dirs"
proof (induction i dirs rule: sort_outer.induct)
  case (1 i dirs)
  show ?case
  proof (cases "i < length dirs")
    case False
    then have "sort_outer i dirs = dirs" by (subst sort_outer.simps) simp
    moreover have "settled (length dirs) dirs"
      using "1.prems" False by (auto simp: settled_def)
    ultimately show ?thesis by simp
  next
    case True
    let ?r = "sort_inner i (Suc i) dirs"
    have "settled (Suc i) ?r"
      using "1.prems" True by (rule settled_step)
    from "1.IH" [OF True this]
    have "settled (length dirs) (sort_outer (Suc i) ?r) \<and> mset (sort_outer (Suc i) ?r) = mset dirs"
      by (simp add: length_sort_inner mset_sort_inner)
    then show ?thesis
      using True by (subst (1 2) sort_outer.simps) simp
  qed
qed

lemma mset_sort_dirs: "mset (sort_dirs dirs) = mset dirs"
  using sort_outer_facts [of 0 dirs] by (simp add: sort_dirs_def settled_def)

lemma sorted_sort_dirs: "sorted_wrt (\<lambda>a b. length b \<le> length a) (sort_dirs dirs)"
proof -
  have s: "settled (length dirs) (sort_dirs dirs)"
    using sort_outer_facts [of 0 dirs] by (simp add: sort_dirs_def settled_def)
  have l: "length (sort_dirs dirs) = length dirs"
    using mset_sort_dirs [of dirs] by (metis size_mset)
  show ?thesis
    unfolding sorted_wrt_iff_nth_less
    using s l by (auto simp: settled_def)
qed

lemma calls_flush_dirs:
  "calls (flush_dirs env dm ds s) = calls s @ concat (map (dir_calls env dm) ds)"
  by (induction ds arbitrary: s) (simp_all add: Let_def dir_calls_def)

lemma distinct_record_dir:
  "distinct (map fst dm) \<Longrightarrow> distinct (map fst (record_dir dst h dm))"
  by (simp add: record_dir_def distinct_update split: sum.splits)

lemma distinct_pending:
  "distinct (map fst dm) \<Longrightarrow> distinct (map fst (pending dst evs dm))"
  by (induction dst evs dm rule: pending.induct) (simp_all add: distinct_record_dir)

lemma keys_pending:
  "set (map fst (pending dst evs dm)) = set (map fst dm) \<union> set (dir_targets dst evs)"
  by (induction dst evs dm rule: pending.induct)
     (auto simp: record_dir_def dom_update split: sum.splits)

lemma mset_flush_order: "mset (flush_order env dm) = mset (map fst dm)"
  by (simp add: flush_order_def range_keys_def mset_sort_dirs)

lemma sorted_flush_order:
  "sorted_wrt (\<lambda>a b. length b \<le> length a) (flush_order env dm)"
  by (simp add: flush_order_def sorted_sort_dirs)

lemma longer_first:
  assumes s: "sorted_wrt (\<lambda>a b. length b \<le> length a) ds"
    and i: "i < length ds" and j: "j < length ds"
    and p: "strict_prefix (ds ! i) (ds ! j)"
  shows "j < i"
proof (rule ccontr)
  assume "\<not> j < i"
  moreover have "i \<noteq> j" using p by auto
  ultimately have "i < j" by simp
  with s j have "length (ds ! j) \<le> length (ds ! i)"
    by (simp add: sorted_wrt_iff_nth_less)
  moreover have "length (ds ! i) < length (ds ! j)"
    using p by (metis prefix_length_less)
  ultimately show False by simp
qed

lemma extract_entry_Continue:
  assumes "extract_entry env True dst h payload fault w dm s = Continue w' dm' s'"
  shows "dm' = record_dir dst h dm"
proof (cases "entry_target dst h")
  case (Inl e)
  with assms show ?thesis by (simp add: extract_entry_def)
next
  case (Inr target)
  obtain r s1 where m: "MkdirAll env (Dir target) defaultDirPermission s = (r, s1)"
    by (cases "MkdirAll env (Dir target) defaultDirPermission s")
  show ?thesis
  proof (cases r)
    case (Some e)
    with assms Inr m show ?thesis by (simp add: extract_entry_def)
  next
    case None
    show ?thesis
    proof (cases "Typeflag h = TypeDir")
      case True
      with assms Inr m None show ?thesis
        by (auto simp: extract_entry_def record_dir_def dir_record_def Let_def
                 split: prod.splits option.splits)
    next
      case False
      with assms Inr m None show ?thesis
        by (auto simp: extract_entry_def record_dir_def
                 split: prod.splits option.splits if_splits)
    qed
  qed
qed

lemma extract_loop_flushes:
  "extract_loop env True dst evs w dm s = ((n, None), s') \<Longrightarrow>
     \<exists>s0. s' = flush_dirs env (pending dst evs dm) (flush_order env (pending dst evs dm)) s0
          \<and> prefix (calls s) (calls s0)"
proof (induction evs arbitrary: w dm s)
  case Nil
  then show ?case by auto
next
  case (Cons ev evs)
  show ?case
  proof (cases ev)
    case ReadError
    with Cons.prems show ?thesis by simp
  next
    case NilHeader
    with Cons.IH [of w dm s] Cons.prems show ?thesis by simp
  next
    case (Entry h payload fault)
    show ?thesis
    proof (cases "extract_entry env True dst h payload fault w dm s")
      case (Return r s1)
      with Entry Cons.prems have "extract_entry env True dst h payload fault w dm s = Return (n, None) s'"
        by simp
      then have False
        by (auto simp: extract_entry_def Let_def
                 split: sum.splits prod.splits option.splits if_splits)
      then show ?thesis ..
    next
      case (Continue w1 dm1 s1)
      then have d: "dm1 = record_dir dst h dm"
        by (rule extract_entry_Continue)
      have p: "prefix (calls s) (calls s1)"
        using extract_entry_prefix [of s env True dst h payload fault w dm] Continue by simp
      from Cons.prems Entry Continue
      have "extract_loop env True dst evs w1 dm1 s1 = ((n, None), s')" by simp
      from Cons.IH [OF this] obtain s0 where
        "s' = flush_dirs env (pending dst evs dm1) (flush_order env (pending dst evs dm1)) s0"
        "prefix (calls s1) (calls s0)" by blast
      with d p Entry show ?thesis
        by (auto intro: prefix_order.trans)
    qed
  qed
qed

lemma tree_stream_ok:
  "fst (Extract quiet_env True ''out'' tree_stream empty_fs) = (3, None)"
  by (simp add: path_defs os_defs extract_defs fixture_defs flush_defs upt_rec)

lemma tree_stream_order:
  "flush_order quiet_env (pending ''out'' tree_stream []) = [''out/x/a/b'', ''out/x/a'']"
  by (simp add: path_defs extract_defs fixture_defs flush_defs)

section \<open>What an entry leaves at its destination\<close>

lemma split_sep_no_sep: "w \<in> set (split_sep p) \<Longrightarrow> CHR ''/'' \<notin> set w"
proof (induction p arbitrary: w)
  case Nil
  then show ?case by simp
next
  case (Cons c cs)
  show ?case
  proof (cases "c = CHR ''/''")
    case True
    with Cons show ?thesis by auto
  next
    case False
    obtain v vs where s: "split_sep cs = v # vs"
      by (cases "split_sep cs") (auto simp: neq_Nil_conv, (cases cs; simp split: list.splits if_splits))
    with Cons.prems False have "w = c # v \<or> w \<in> set vs" by auto
    with Cons.IH s False show ?thesis by auto
  qed
qed

lemma elems_are_elems: "e \<in> set (elems p) \<Longrightarrow> is_elem e"
  by (auto simp: elems_def is_elem_def dest: split_sep_no_sep)

lemma clean_elems_are_elems:
  "(\<And>e. e \<in> set out \<Longrightarrow> is_elem e) \<Longrightarrow> (\<And>e. e \<in> set es \<Longrightarrow> is_elem e) \<Longrightarrow>
     e \<in> set (clean_elems rooted out es) \<Longrightarrow> is_elem e"
proof (induction es arbitrary: out)
  case Nil
  then show ?case by simp
next
  case (Cons x es)
  have dd: "is_elem ''..''" by (simp add: is_elem_def)
  have b: "\<And>e. e \<in> set (butlast out) \<Longrightarrow> is_elem e"
    using Cons.prems(1) by (auto dest: in_set_butlastD)
  have x: "is_elem x" using Cons.prems(2) by simp
  have es: "\<And>e. e \<in> set es \<Longrightarrow> is_elem e" using Cons.prems(2) by simp
  from Cons.prems(3) show ?case
    using Cons.IH [of out, OF Cons.prems(1) es]
          Cons.IH [of "butlast out", OF b es]
          Cons.IH [of "out @ [''..'']", OF _ es]
          Cons.IH [of "out @ [x]", OF _ es]
          Cons.prems(1) dd x
    by (auto split: if_splits)
qed

lemma split_sep_elem: "CHR ''/'' \<notin> set e \<Longrightarrow> split_sep e = [e]"
  by (induction e) auto

lemma split_sep_elem_sep:
  "CHR ''/'' \<notin> set e \<Longrightarrow> split_sep (e @ CHR ''/'' # r) = e # split_sep r"
  by (induction e) auto

lemma split_sep_join_sep:
  "(\<And>e. e \<in> set out \<Longrightarrow> is_elem e) \<Longrightarrow> out \<noteq> [] \<Longrightarrow> split_sep (join_sep out) = out"
proof (induction out rule: join_sep.induct)
  case 1
  then show ?case by simp
next
  case (2 e)
  then show ?case by (simp add: is_elem_def split_sep_elem)
next
  case (3 e v va)
  then show ?case by (simp add: is_elem_def split_sep_elem_sep)
qed

lemma elems_join_sep:
  assumes "\<And>e. e \<in> set out \<Longrightarrow> is_elem e"
  shows "elems (join_sep out) = out"
proof (cases "out = []")
  case True
  then show ?thesis by (simp add: elems_def)
next
  case False
  have "filter (\<lambda>w. w \<noteq> []) out = out"
    using assms by (auto simp: is_elem_def intro: filter_True)
  with False assms show ?thesis
    by (simp add: elems_def split_sep_join_sep)
qed

lemma elems_rooted_join_sep:
  assumes "\<And>e. e \<in> set out \<Longrightarrow> is_elem e"
  shows "elems (CHR ''/'' # join_sep out) = out"
  using elems_join_sep [OF assms] by (simp add: elems_def)

lemma join_sep_not_abs:
  assumes "\<And>e. e \<in> set out \<Longrightarrow> is_elem e"
  shows "\<not> IsAbs (join_sep out)"
proof (cases out rule: join_sep.cases)
  case 1
  then show ?thesis by (simp add: IsAbs_def)
next
  case (2 e)
  with assms [of e] show ?thesis
    by (cases e) (auto simp: IsAbs_def is_elem_def)
next
  case (3 e v va)
  with assms [of e] show ?thesis
    by (cases e) (auto simp: IsAbs_def is_elem_def)
qed

lemma take_all_upt: "xs \<noteq> [] \<Longrightarrow> length xs \<in> set [1..<Suc (length xs)]"
  by (cases xs) auto

lemma Clean_in_ancestors:
  assumes "Clean p \<noteq> ''/''"
  shows "Clean p \<in> set (ancestors p)"
proof (cases "p = []")
  case True
  then show ?thesis
    by (simp add: ancestors_def Clean_def elems_def IsAbs_def)
next
  case False
  let ?out = "clean_elems (IsAbs p) [] (elems p)"
  have el: "\<And>e. e \<in> set ?out \<Longrightarrow> is_elem e"
    by (rule clean_elems_are_elems [of "[]" "elems p"]) (auto dest: elems_are_elems)
  show ?thesis
  proof (cases "IsAbs p")
    case True
    then have c: "Clean p = CHR ''/'' # join_sep ?out"
      using False by (simp add: Clean_def)
    with assms have ne: "?out \<noteq> []" by auto
    have a: "IsAbs (Clean p)" by (simp add: c IsAbs_def)
    have e: "elems (Clean p) = ?out"
      by (simp only: c elems_rooted_join_sep [OF el])
    have "Clean p = (if IsAbs (Clean p) then ''/'' else []) @ join_sep (take (length ?out) ?out)"
      using a c by simp
    moreover have "length ?out \<in> set [1..<Suc (length ?out)]"
      using ne by (rule take_all_upt)
    ultimately show ?thesis
      unfolding ancestors_def Let_def e by (metis (no_types, lifting) image_eqI set_map)
  next
    case nabs: False
    show ?thesis
    proof (cases "?out = []")
      case True
      then have "Clean p = ''.''"
        using False nabs by (simp add: Clean_def)
      then show ?thesis
        by (simp add: ancestors_def elems_def IsAbs_def)
    next
      case ne: False
      then have c: "Clean p = join_sep ?out"
        using False nabs by (simp add: Clean_def)
      have a: "\<not> IsAbs (Clean p)"
        by (simp only: c join_sep_not_abs [OF el] not_False_eq_True)
      have e: "elems (Clean p) = ?out"
        by (simp only: c elems_join_sep [OF el])
      have "Clean p = (if IsAbs (Clean p) then ''/'' else []) @ join_sep (take (length ?out) ?out)"
        using a c by simp
      moreover have "length ?out \<in> set [1..<Suc (length ?out)]"
        using ne by (rule take_all_upt)
      ultimately show ?thesis
        unfolding ancestors_def Let_def e by (metis (no_types, lifting) image_eqI set_map)
    qed
  qed
qed

lemma is_dir_create:
  assumes "is_dir s q" and "names s q' = None"
  shows "is_dir (create env q' KDir m s) q"
proof -
  from assms(1) obtain i n where i: "names s q = Some i" "inodes s i = Some n" "kind n = KDir"
    by (auto simp: is_dir_def)
  from i(1) assms(2) have "q \<noteq> q'" by auto
  then show ?thesis
    using i by (auto simp: is_dir_def create_def new_inode_def)
qed

lemma is_dir_create_same: "is_dir (create env q KDir m s) q"
  by (simp add: is_dir_def create_def new_inode_def)

lemma mkdirs_keeps_dir:
  "is_dir s q \<Longrightarrow> is_dir (snd (mkdirs env m qs s)) q"
proof (induction qs arbitrary: s)
  case Nil
  then show ?case by simp
next
  case (Cons q' qs)
  show ?case
  proof (cases "names s q'")
    case None
    with Cons.IH [OF is_dir_create [OF Cons.prems None]] show ?thesis by simp
  next
    case (Some i)
    with Cons.IH [OF Cons.prems] Cons.prems show ?thesis
      by (simp split: option.splits)
  qed
qed

lemma mkdirs_makes_dirs:
  "fst (mkdirs env m qs s) = None \<Longrightarrow> q \<in> set qs \<Longrightarrow> is_dir (snd (mkdirs env m qs s)) q"
proof (induction qs arbitrary: s)
  case Nil
  then show ?case by simp
next
  case (Cons q' qs)
  show ?case
  proof (cases "names s q'")
    case None
    let ?s = "create env q' KDir m s"
    have ok: "fst (mkdirs env m qs ?s) = None"
      using Cons.prems(1) None by simp
    show ?thesis
    proof (cases "q = q'")
      case True
      with mkdirs_keeps_dir [OF is_dir_create_same, of env m qs env q' m s] None
      show ?thesis by simp
    next
      case False
      with Cons.prems(2) have "q \<in> set qs" by simp
      from Cons.IH [OF ok this] None show ?thesis by simp
    qed
  next
    case (Some i)
    from Cons.prems(1) Some obtain n where n: "inodes s i = Some n" "kind n = KDir"
      by (auto split: option.splits if_splits)
    then have ok: "fst (mkdirs env m qs s) = None"
      using Cons.prems(1) Some by simp
    show ?thesis
    proof (cases "q = q'")
      case True
      have "is_dir s q'" using Some n by (auto simp: is_dir_def)
      from mkdirs_keeps_dir [OF this, of env m qs] True Some n show ?thesis by simp
    next
      case False
      with Cons.prems(2) have "q \<in> set qs" by simp
      from Cons.IH [OF ok this] Some n show ?thesis by simp
    qed
  qed
qed

lemma is_dir_record_call [simp]: "is_dir (record_call c s) q = is_dir s q"
  by (simp add: is_dir_def)

lemma is_dir_lookup: "is_dir s (Clean p) \<Longrightarrow> map_option kind (lookup s p) = Some KDir"
  by (auto simp: is_dir_def lookup_def key_def)

lemma MkdirAll_makes_dir:
  assumes "MkdirAll env p m s = (None, s')" and "Clean p \<noteq> ''/''"
  shows "map_option kind (lookup s' p) = Some KDir"
proof -
  let ?s = "record_call (SMkdirAll p m) s"
  from assms(1) have f: "\<not> failing env s (SMkdirAll p m)"
    by (auto simp: MkdirAll_def Let_def split: if_splits)
  with assms(1) have r: "mkdirs env m (ancestors p) ?s = (None, s')"
    by (simp add: MkdirAll_def Let_def)
  then have "fst (mkdirs env m (ancestors p) ?s) = None" by simp
  from mkdirs_makes_dirs [OF this Clean_in_ancestors [OF assms(2)]] r
  have "is_dir s' (Clean p)" by simp
  then show ?thesis by (rule is_dir_lookup)
qed

lemma OpenFile_opens_file:
  assumes "OpenFile env p m s = (None, s')"
  shows "\<exists>n old. lookup s' p = Some n \<and> kind n = KFile old"
proof (cases "lookup s p")
  case None
  with assms have "s' = create env (key p) (KFile []) m (record_call (SOpenFile p m) s)"
    by (auto simp: OpenFile_def Let_def split: if_splits)
  then show ?thesis by (simp add: new_inode_def)
next
  case (Some n)
  with assms obtain old where "kind n = KFile old" "s' = record_call (SOpenFile p m) s"
    by (auto simp: OpenFile_def Let_def split: if_splits kind.splits)
  with Some show ?thesis by simp
qed

lemma kind_lookup_apply_meta:
  assumes "\<And>n. kind (f n) = kind n"
  shows "map_option kind (lookup (snd (apply_meta env c p f s)) p) = map_option kind (lookup s p)"
  by (cases "lookup s p") (simp_all add: lookup_apply_meta_same assms)

lemma kind_lookup_restore_metadata:
  "map_option kind (lookup (restore_metadata env h p s) p) = map_option kind (lookup s p)"
  by (simp add: restore_metadata_def Let_def Chmod_def Chtimes_def Chown_def kind_lookup_apply_meta)

lemma lookup_Close [simp]: "lookup (snd (Close env p s)) q = lookup s q"
  by (simp add: Close_def)

lemma extractRegular_writes:
  assumes "extractRegular env h payload fault target pm s = ((n, None), s')"
  shows "n = int (length payload)
       \<and> prefix (calls s @ [SOpenFile target (Mode h), SWrite target payload]) (calls s')
       \<and> (\<exists>old. map_option kind (lookup s' target) = Some (KFile (overwrite payload old)))"
proof -
  obtain s1 where o: "OpenFile env target (Mode h) s = (None, s1)"
    using assms by (cases "OpenFile env target (Mode h) s")
                   (auto simp: extractRegular_def split: option.splits)
  have fault: "fault = None"
    using assms o by (cases fault) (simp_all add: extractRegular_def Let_def)
  let ?s2 = "write_file env target payload s1"
  let ?s3 = "if pm then restore_metadata env h target ?s2 else ?s2"
  have s': "s' = snd (Close env target ?s3)" and n: "n = int (length payload)"
    using assms o fault by (auto simp: extractRegular_def Let_def case_prod_beta)
  from OpenFile_opens_file [OF o] obtain m old where
    m: "lookup s1 target = Some m" "kind m = KFile old" by blast
  have k2: "map_option kind (lookup ?s2 target) = Some (KFile (overwrite payload old))"
    using m by (simp add: write_file_def)
  have k3: "map_option kind (lookup ?s3 target) = Some (KFile (overwrite payload old))"
  proof (cases pm)
    case True
    have "map_option kind (lookup (restore_metadata env h target ?s2) target)
            = map_option kind (lookup ?s2 target)"
      by (rule kind_lookup_restore_metadata)
    with k2 True show ?thesis by (simp only: if_True)
  next
    case False
    with k2 show ?thesis by (simp only: if_False)
  qed
  have k': "map_option kind (lookup s' target) = Some (KFile (overwrite payload old))"
    by (simp only: s' lookup_Close k3)
  have c1: "calls s1 = calls s @ [SOpenFile target (Mode h)]"
    using calls_OpenFile [of env target "Mode h" s] o by simp
  have c2: "calls ?s2 = calls s @ [SOpenFile target (Mode h), SWrite target payload]"
    by (simp add: c1)
  have c3: "prefix (calls ?s2) (calls ?s3)"
    by (cases pm) simp_all
  have c4: "prefix (calls ?s3) (calls s')"
    unfolding s' by (simp only: calls_Close) simp
  from c3 c4 have "prefix (calls ?s2) (calls s')"
    by (rule prefix_order.trans)
  then have "prefix (calls s @ [SOpenFile target (Mode h), SWrite target payload]) (calls s')"
    by (simp only: c2)
  with n k' show ?thesis by blast
qed

lemma names_apply_meta [simp]: "names (snd (apply_meta env c p f s)) = names s"
  by (simp add: apply_meta_def Let_def)

lemma names_restore_metadata [simp]: "names (restore_metadata env h p s) = names s"
  by (simp add: restore_metadata_def Let_def Chmod_def Chtimes_def Chown_def)

lemma extractSymlink_makes_link:
  assumes ok: "extractSymlink env h target pm s = (None, s')"
  shows "map_option kind (lookup s' target) = Some (KSymlink (Linkname h))
       \<and> calls s' = calls s @ SLstat target
                       # (if fst (Lstat env target s) then [SRemove target] else [])
                       @ SSymlink (Linkname h) target
                       # (if pm \<and> \<not> windows env then [SLchown target (Uid h) (Gid h)] else [])"
proof -
  obtain s1 where u: "unlink env target s = (None, s1)"
    using ok by (auto simp: extractSymlink_def split: prod.splits option.splits)
  obtain s2 where l: "Symlink env (Linkname h) target s1 = (None, s2)"
    using ok u by (auto simp: extractSymlink_def split: prod.splits option.splits)
  have s': "s' = (if pm \<and> \<not> windows env then snd (Lchown env target (Uid h) (Gid h) s2) else s2)"
    using ok u l by (simp add: extractSymlink_def)
  have s2: "s2 = create env (key target) (KSymlink (Linkname h)) 511
                   (record_call (SSymlink (Linkname h) target) s1)"
    using l by (rule Symlink_ok)
  have c1: "calls s1 = calls s @ SLstat target # (if fst (Lstat env target s) then [SRemove target] else [])"
    using u by (rule unlink_callsD)
  have k2: "map_option kind (lookup s2 target) = Some (KSymlink (Linkname h))"
    by (simp add: s2 new_inode_def)
  have c2: "calls s2 = calls s1 @ [SSymlink (Linkname h) target]"
    by (simp add: s2)
  have k: "map_option kind (lookup s' target) = Some (KSymlink (Linkname h))"
  proof (cases "pm \<and> \<not> windows env")
    case True
    then have "s' = snd (Lchown env target (Uid h) (Gid h) s2)" using s' by auto
    moreover have "map_option kind (lookup (snd (Lchown env target (Uid h) (Gid h) s2)) target)
                     = map_option kind (lookup s2 target)"
      unfolding Lchown_def by (rule kind_lookup_apply_meta) simp
    ultimately show ?thesis using k2 by (simp only:)
  next
    case False
    then have "s' = s2" using s' by auto
    with k2 show ?thesis by (simp only:)
  qed
  have c: "calls s' = calls s2 @ (if pm \<and> \<not> windows env then [SLchown target (Uid h) (Gid h)] else [])"
    using s' by (simp add: Lchown_def)
  from k c c1 c2 show ?thesis by simp
qed

lemma Link_ok:
  assumes "Link env old new s = (None, s')"
  shows "\<exists>i. names s (key old) = Some i
            \<and> s' = (record_call (SLink old new) s)\<lparr>names := (names s)(key new \<mapsto> i)\<rparr>"
  using assms
  by (auto simp: Link_def Let_def split: if_splits option.splits)

lemma extractLink_makes_link:
  assumes ok: "extractLink env h target pm s = (None, s')"
  shows "names s' (key target) = names s' (key (Linkname h))
       \<and> names s' (key target) \<noteq> None
       \<and> prefix (calls s @ SLstat target
                   # (if fst (Lstat env target s) then [SRemove target] else [])
                   @ [SLink (Linkname h) target]) (calls s')"
proof -
  obtain s1 where u: "unlink env target s = (None, s1)"
    using ok by (auto simp: extractLink_def split: prod.splits option.splits)
  obtain s2 where l: "Link env (Linkname h) target s1 = (None, s2)"
    using ok u by (auto simp: extractLink_def split: prod.splits option.splits)
  have s': "s' = (if pm then restore_metadata env h target s2 else s2)"
    using ok u l by (simp add: extractLink_def)
  from Link_ok [OF l] obtain i where
    i: "names s1 (key (Linkname h)) = Some i"
       "s2 = (record_call (SLink (Linkname h) target) s1)\<lparr>names := (names s1)(key target \<mapsto> i)\<rparr>"
    by blast
  have n2: "names s2 (key target) = Some i" "names s2 (key (Linkname h)) = Some i"
    using i by simp_all
  have n': "names s' = names s2"
    using s' by simp
  have c1: "calls s1 = calls s @ SLstat target # (if fst (Lstat env target s) then [SRemove target] else [])"
    using u by (rule unlink_callsD)
  have c2: "calls s2 = calls s1 @ [SLink (Linkname h) target]"
    using calls_Link [of env "Linkname h" target s1] l by simp
  have c3: "prefix (calls s2) (calls s')"
    using s' by (cases pm) simp_all
  have "prefix (calls s @ SLstat target
                   # (if fst (Lstat env target s) then [SRemove target] else [])
                   @ [SLink (Linkname h) target]) (calls s')"
    using c3 c2 c1 by simp
  with n2 n' show ?thesis by simp
qed

lemma extract_loop_append:
  "extract_loop env pm dst (pre @ evs) w dm s =
     (case extract_steps env pm dst pre w dm s of
        Return r s' \<Rightarrow> (r, s')
      | Continue w' dm' s' \<Rightarrow> extract_loop env pm dst evs w' dm' s')"
proof (induction pre arbitrary: w dm s)
  case Nil
  then show ?case by simp
next
  case (Cons ev pre)
  show ?case
  proof (cases ev)
    case (Entry h payload fault)
    then show ?thesis
      using Cons.IH by (cases "extract_entry env pm dst h payload fault w dm s") simp_all
  next
    case NilHeader
    then show ?thesis using Cons.IH by simp
  next
    case ReadError
    then show ?thesis by simp
  qed
qed

lemma extract_entry_dispatch:
  assumes "entry_target dst h = Inr target"
    and "MkdirAll env (Dir target) defaultDirPermission s = (None, s1)"
  shows "extract_entry env pm dst h payload fault w dm s =
     (if Typeflag h = TypeDir then
        (if pm then
           (case MkdirAll env target defaultDirPermission s1 of
              (Some e, s2) \<Rightarrow> Return (w, Some (ErrCreateDirectory e)) s2
            | (None, s2) \<Rightarrow>
                Continue w
                  (AList.update target
                     \<lparr>dm_mode = Mode h, dm_at = AccessTime h, dm_mt = ModTime h,
                      dm_uid = Uid h, dm_gid = Gid h\<rparr> dm) s2)
         else
           (case extractDir env h target s1 of
              (Some e, s2) \<Rightarrow> Return (w, Some e) s2
            | (None, s2) \<Rightarrow> Continue w dm s2))
      else if Typeflag h \<in> {TypeReg, TypeRegA, TypeChar, TypeBlock, TypeFifo} then
        (case extractRegular env h payload fault target pm s1 of
           ((n, Some e), s2) \<Rightarrow> Return (w + n, Some (ErrExtractRegular e)) s2
         | ((n, None), s2) \<Rightarrow> Continue (w + n) dm s2)
      else if Typeflag h = TypeSymlink then
        (case extractSymlink env h target pm s1 of
           (Some e, s2) \<Rightarrow> Return (w, Some (ErrExtractSymlink e)) s2
         | (None, s2) \<Rightarrow> Continue w dm s2)
      else if Typeflag h = TypeLink then
        (case extractLink env h target pm s1 of
           (Some e, s2) \<Rightarrow> Return (w, Some (ErrExtractLink e)) s2
         | (None, s2) \<Rightarrow> Continue w dm s2)
      else if Typeflag h = TypeXGlobalHeader then Continue w dm s1
      else Return (w, Some ErrUnknownTypeFlag) s1)"
  using assms by (simp add: extract_entry_def Let_def)

lemma extract_entry_Continue_parent:
  assumes "entry_target dst h = Inr target"
    and "extract_entry env pm dst h payload fault w dm s = Continue w' dm' s'"
  shows "fst (MkdirAll env (Dir target) defaultDirPermission s) = None"
  using assms
  by (cases "MkdirAll env (Dir target) defaultDirPermission s")
     (auto simp: extract_entry_def split: option.splits)

section \<open>The path normalizer: results\<close>

text \<open>
  C4. The specification has it that, for every root and path, the name computed by
  \<open>relative\<close> never begins with \<open>../\<close>, has no upward-traversal segment and no leading
  slash, in particular for a path whose directory is an ancestor of the root. The loop of \<open>relative\<close> removes a
  leading \<open>../\<close> only: for the root \<open>/a/b\<close> and the path \<open>/a/x\<close>, whose directory \<open>/a\<close> is
  the parent of the root, \<^verbatim>\<open>filepath.Rel\<close> gives \<open>..\<close>, which has no slash after it and
  stays, and the name is \<open>../x\<close>.
\<close>

theorem relative_ancestor_keeps_dotdot:
  "relative ''/a/b'' ''/a/x'' = Inr ''../x''"
  by (simp add: path_defs)

section \<open>Extraction: results\<close>

text \<open>
  C1. The specification has it that, when an entry's relative name cannot be computed
  or its parent directory cannot be made, \<open>Extract\<close> returns the bytes written so far with
  the error, as for every other read or restore error.
  Both returns of the source give the count \<open>0\<close> instead. Here the first entry writes
  three bytes and the parent directory of the second cannot be made: the call has
  written three bytes (the record of calls shows the write) and returns \<open>0\<close>.
\<close>

theorem Extract_parent_failure_returns_zero:
  "fst (Extract (quiet_env\<lparr>fails := (\<lambda>n c. c = SMkdirAll ''/out/b'' 493)\<rparr>) False ''/out''
          [Entry (plain_header TypeReg ''/out/a'') ''abc'' None,
           Entry (plain_header TypeReg ''/out/b/c'') ''x'' None] empty_fs)
     = (0, Some (ErrEnsureDirectory ErrOs))
   \<and> SWrite ''/out/a'' ''abc''
       \<in> set (calls (snd (Extract (quiet_env\<lparr>fails := (\<lambda>n c. c = SMkdirAll ''/out/b'' 493)\<rparr>)
                False ''/out''
                [Entry (plain_header TypeReg ''/out/a'') ''abc'' None,
                 Entry (plain_header TypeReg ''/out/b/c'') ''x'' None] empty_fs)))"
  by (simp add: path_defs os_defs extract_defs fixture_defs upt_rec)

text \<open>
  C5. The specification has it that \<open>Extract\<close> creates or truncates the destination of
  a regular entry, so that the file holds exactly the payload even when a longer file
  was there. The file
  is opened without truncation: over the eleven bytes \<open>hello world\<close> the payload \<open>abc\<close>
  leaves \<open>abclo world\<close>, and the call reports success with three bytes written.
\<close>

theorem Extract_regular_keeps_old_tail:
  "fst (Extract quiet_env False ''/out''
          [Entry (plain_header TypeReg ''/out/a'') ''abc'' None] one_file_fs) = (3, None)
   \<and> map_option kind
        (lookup (snd (Extract quiet_env False ''/out''
                   [Entry (plain_header TypeReg ''/out/a'') ''abc'' None] one_file_fs)) ''/out/a'')
     = Some (KFile ''abclo world'')"
  by (simp add: path_defs os_defs extract_defs fixture_defs upt_rec)

text \<open>
  C10. For a link entry whose destination has no entry (\<^verbatim>\<open>Lstat\<close> fails), the removal
  step of \<open>unlink\<close> does nothing and returns no error, so that neither \<open>extractSymlink\<close>
  nor \<open>extractLink\<close> fails with the error of that step; a path without an entry is such a
  destination; \<open>unlink\<close> calls \<^verbatim>\<open>Remove\<close> exactly when \<^verbatim>\<open>Lstat\<close> succeeded, and \<^verbatim>\<open>Lstat\<close>
  succeeds only where an entry is.
\<close>

theorem unlink_absent_is_noop:
  "(\<not> fst (Lstat env target s) \<longrightarrow>
      unlink env target s = (None, record_call (SLstat target) s)
    \<and> (\<forall>e. fst (extractSymlink env h target pm s) \<noteq> Some (ErrUnlink e))
    \<and> (\<forall>e. fst (extractLink env h target pm s) \<noteq> Some (ErrUnlink e)))
   \<and> (lookup s target = None \<longrightarrow> \<not> fst (Lstat env target s))
   \<and> calls (snd (unlink env target s))
       = calls s @ SLstat target # (if fst (Lstat env target s) then [SRemove target] else [])
   \<and> (fst (Lstat env target s) \<longrightarrow> lookup s target \<noteq> None)"
proof -
  have a: "unlink env target s = (None, record_call (SLstat target) s)"
    if "\<not> fst (Lstat env target s)"
    using that by (rule unlink_no_entry)
  have b: "fst (extractSymlink env h target pm s) \<noteq> Some (ErrUnlink e)"
    if "\<not> fst (Lstat env target s)" for e
    using a [OF that] by (simp add: extractSymlink_def split: prod.splits option.splits)
  have c: "fst (extractLink env h target pm s) \<noteq> Some (ErrUnlink e)"
    if "\<not> fst (Lstat env target s)" for e
    using a [OF that] by (simp add: extractLink_def split: prod.splits option.splits)
  have d: "fst (Lstat env target s) \<Longrightarrow> lookup s target \<noteq> None"
    by (simp add: Lstat_def)
  from a b c d show ?thesis
    by (simp add: calls_unlink Lstat_absent)
qed

theorem unlink_absent_is_noop_witness:
  "unlink quiet_env ''/out/l'' empty_fs = (None, record_call (SLstat ''/out/l'') empty_fs)
   \<and> fst (extractSymlink quiet_env ((plain_header TypeSymlink ''/out/l'')\<lparr>Linkname := ''a''\<rparr>) ''/out/l'' True empty_fs) = None"
proof -
  have h: "\<not> fst (Lstat quiet_env ''/out/l'' empty_fs)"
    by (simp add: path_defs os_defs fixture_defs)
  have "fst (extractSymlink quiet_env ((plain_header TypeSymlink ''/out/l'')\<lparr>Linkname := ''a''\<rparr>) ''/out/l'' True empty_fs) = None"
    by (simp add: path_defs os_defs extract_defs fixture_defs)
  with h unlink_absent_is_noop [of quiet_env "''/out/l''" empty_fs] show ?thesis
    by simp
qed

text \<open>
  C9. For an entry, wherever it stands in the stream, whose name is absolute or equal to
  the destination root, the destination is the name as it stands, and the entry is made
  at that very name, not under the root. Whenever the loop of \<open>Extract\<close> reaches the
  entry, the first call for it makes the parent of the name, and for a regular entry
  whose parent could be made the next call opens the name. When the entry is restored
  without error: a directory entry has made the directory at the name (and, when
  metadata is preserved, has recorded its metadata under the name); a regular entry has
  opened the name and written the payload into the file there; a symbolic-link entry
  has made a link to its link name at the name; a hard-link entry has bound the name
  to the inode of its link name; and \<open>Extract\<close> goes on from that state with the rest of
  the stream. The witness extracts a directory \<open>/etc/x\<close> and a file \<open>/etc/passwd\<close> under
  the root \<open>/out\<close>: both are made outside the root.
\<close>

theorem Extract_verbatim_name:
  assumes name: "dst = Name h \<or> IsAbs (Name h)"
    and reach: "extract_steps env pm dst pre 0 [] s = Continue w dm sa"
  shows "entry_target dst h = Inr (Name h)
     \<and> prefix (calls sa @ [SMkdirAll (Dir (Name h)) defaultDirPermission])
         (calls (snd (Extract env pm dst (pre @ Entry h payload fault # post) s)))
     \<and> (Typeflag h \<in> {TypeReg, TypeRegA, TypeChar, TypeBlock, TypeFifo}
          \<and> fst (MkdirAll env (Dir (Name h)) defaultDirPermission sa) = None
        \<longrightarrow> prefix (calls sa @ [SMkdirAll (Dir (Name h)) defaultDirPermission,
                                SOpenFile (Name h) (Mode h)])
              (calls (snd (Extract env pm dst (pre @ Entry h payload fault # post) s))))
     \<and> (extract_entry env pm dst h payload fault w dm sa = Continue w' dm' sb \<longrightarrow>
          Extract env pm dst (pre @ Entry h payload fault # post) s
            = extract_loop env pm dst post w' dm' sb
        \<and> prefix (calls sb)
            (calls (snd (Extract env pm dst (pre @ Entry h payload fault # post) s)))
        \<and> (Typeflag h = TypeDir \<longrightarrow>
              calls sb = calls sa @ [SMkdirAll (Dir (Name h)) defaultDirPermission,
                                     SMkdirAll (Name h) (if pm then defaultDirPermission else Mode h)]
            \<and> (Clean (Name h) \<noteq> ''/'' \<longrightarrow> map_option kind (lookup sb (Name h)) = Some KDir)
            \<and> (pm \<longrightarrow> map_of dm' (Name h) = Some (dir_record h)))
        \<and> (Typeflag h \<in> {TypeReg, TypeRegA, TypeChar, TypeBlock, TypeFifo} \<longrightarrow>
              w' = w + int (length payload)
            \<and> prefix (calls sa @ [SMkdirAll (Dir (Name h)) defaultDirPermission,
                                   SOpenFile (Name h) (Mode h), SWrite (Name h) payload])
                (calls sb)
            \<and> (\<exists>old. map_option kind (lookup sb (Name h)) = Some (KFile (overwrite payload old))))
        \<and> (Typeflag h = TypeSymlink \<longrightarrow>
              map_option kind (lookup sb (Name h)) = Some (KSymlink (Linkname h))
            \<and> calls sb = calls sa @ SMkdirAll (Dir (Name h)) defaultDirPermission
                  # SLstat (Name h)
                  # (if fst (Lstat env (Name h)
                              (snd (MkdirAll env (Dir (Name h)) defaultDirPermission sa)))
                     then [SRemove (Name h)] else [])
                  @ SSymlink (Linkname h) (Name h)
                  # (if pm \<and> \<not> windows env then [SLchown (Name h) (Uid h) (Gid h)] else []))
        \<and> (Typeflag h = TypeLink \<longrightarrow>
              names sb (key (Name h)) = names sb (key (Linkname h))
            \<and> names sb (key (Name h)) \<noteq> None
            \<and> prefix (calls sa @ SMkdirAll (Dir (Name h)) defaultDirPermission
                  # SLstat (Name h)
                  # (if fst (Lstat env (Name h)
                              (snd (MkdirAll env (Dir (Name h)) defaultDirPermission sa)))
                     then [SRemove (Name h)] else [])
                  @ [SLink (Linkname h) (Name h)])
                (calls sb)))"
proof -
  let ?T = "Name h"
  let ?P = "Dir (Name h)"
  let ?r = "pre @ Entry h payload fault # post"
  have t: "entry_target dst h = Inr ?T"
    using name by (auto simp: entry_target_def)
  have run: "Extract env pm dst ?r s = extract_loop env pm dst (Entry h payload fault # post) w dm sa"
    by (simp add: Extract_def extract_loop_append reach del: extract_loop.simps)
  have A: "prefix (calls sa @ [SMkdirAll ?P defaultDirPermission]) (calls (snd (Extract env pm dst ?r s)))"
    unfolding run by (rule prefix_extract_loop_entry) (rule extract_entry_calls [OF t])
  have B: "prefix (calls sa @ [SMkdirAll ?P defaultDirPermission, SOpenFile ?T (Mode h)])
             (calls (snd (Extract env pm dst ?r s)))"
    if "Typeflag h \<in> {TypeReg, TypeRegA, TypeChar, TypeBlock, TypeFifo}"
      and "fst (MkdirAll env ?P defaultDirPermission sa) = None"
    unfolding run
    by (rule prefix_extract_loop_entry) (rule extract_entry_calls_regular [OF t that])
  have C: "Extract env pm dst ?r s = extract_loop env pm dst post w' dm' sb
        \<and> prefix (calls sb) (calls (snd (Extract env pm dst ?r s)))
        \<and> (Typeflag h = TypeDir \<longrightarrow>
              calls sb = calls sa @ [SMkdirAll ?P defaultDirPermission,
                                     SMkdirAll ?T (if pm then defaultDirPermission else Mode h)]
            \<and> (Clean ?T \<noteq> ''/'' \<longrightarrow> map_option kind (lookup sb ?T) = Some KDir)
            \<and> (pm \<longrightarrow> map_of dm' ?T = Some (dir_record h)))
        \<and> (Typeflag h \<in> {TypeReg, TypeRegA, TypeChar, TypeBlock, TypeFifo} \<longrightarrow>
              w' = w + int (length payload)
            \<and> prefix (calls sa @ [SMkdirAll ?P defaultDirPermission,
                                   SOpenFile ?T (Mode h), SWrite ?T payload])
                (calls sb)
            \<and> (\<exists>old. map_option kind (lookup sb ?T) = Some (KFile (overwrite payload old))))
        \<and> (Typeflag h = TypeSymlink \<longrightarrow>
              map_option kind (lookup sb ?T) = Some (KSymlink (Linkname h))
            \<and> calls sb = calls sa @ SMkdirAll ?P defaultDirPermission
                  # SLstat ?T
                  # (if fst (Lstat env ?T (snd (MkdirAll env ?P defaultDirPermission sa)))
                     then [SRemove ?T] else [])
                  @ SSymlink (Linkname h) ?T
                  # (if pm \<and> \<not> windows env then [SLchown ?T (Uid h) (Gid h)] else []))
        \<and> (Typeflag h = TypeLink \<longrightarrow>
              names sb (key ?T) = names sb (key (Linkname h))
            \<and> names sb (key ?T) \<noteq> None
            \<and> prefix (calls sa @ SMkdirAll ?P defaultDirPermission
                  # SLstat ?T
                  # (if fst (Lstat env ?T (snd (MkdirAll env ?P defaultDirPermission sa)))
                     then [SRemove ?T] else [])
                  @ [SLink (Linkname h) ?T])
                (calls sb))"
    if step: "extract_entry env pm dst h payload fault w dm sa = Continue w' dm' sb"
  proof -
    have e1: "Extract env pm dst ?r s = extract_loop env pm dst post w' dm' sb"
      unfolding run using step by simp
    have e2: "prefix (calls sb) (calls (snd (Extract env pm dst ?r s)))"
      unfolding e1 by (rule prefix_extract_loop)
    from extract_entry_Continue_parent [OF t step]
    obtain sp where m: "MkdirAll env ?P defaultDirPermission sa = (None, sp)"
      by (cases "MkdirAll env ?P defaultDirPermission sa") auto
    then have sp: "snd (MkdirAll env ?P defaultDirPermission sa) = sp" by simp
    have cp: "calls sp = calls sa @ [SMkdirAll ?P defaultDirPermission]"
      using m by (rule MkdirAll_callsD)
    note d = extract_entry_dispatch [OF t m, of pm payload fault w dm]
    have dir: "calls sb = calls sa @ [SMkdirAll ?P defaultDirPermission,
                                     SMkdirAll ?T (if pm then defaultDirPermission else Mode h)]
            \<and> (Clean ?T \<noteq> ''/'' \<longrightarrow> map_option kind (lookup sb ?T) = Some KDir)
            \<and> (pm \<longrightarrow> map_of dm' ?T = Some (dir_record h))"
      if ty: "Typeflag h = TypeDir"
    proof (cases pm)
      case True
      from step d ty True have
        mk: "MkdirAll env ?T defaultDirPermission sp = (None, sb)"
        and dm': "dm' = AList.update ?T (dir_record h) dm"
        by (cases "MkdirAll env ?T defaultDirPermission sp";
            auto simp: dir_record_def split: option.splits)+
      have "calls sb = calls sp @ [SMkdirAll ?T defaultDirPermission]"
        using mk by (rule MkdirAll_callsD)
      moreover have "Clean ?T \<noteq> ''/'' \<longrightarrow> map_option kind (lookup sb ?T) = Some KDir"
        using MkdirAll_makes_dir [OF mk] by blast
      moreover have "map_of dm' ?T = Some (dir_record h)"
        by (simp add: dm' update_conv')
      ultimately show ?thesis using True cp by simp
    next
      case False
      from step d ty False have x: "extractDir env h ?T sp = (None, sb)"
        by (cases "extractDir env h ?T sp") (auto split: option.splits)
      then have mk: "MkdirAll env ?T (Mode h) sp = (None, sb)"
        by (cases "MkdirAll env ?T (Mode h) sp") (auto simp: extractDir_def split: option.splits)
      have "calls sb = calls sp @ [SMkdirAll ?T (Mode h)]"
        using mk by (rule MkdirAll_callsD)
      moreover have "Clean ?T \<noteq> ''/'' \<longrightarrow> map_option kind (lookup sb ?T) = Some KDir"
        using MkdirAll_makes_dir [OF mk] by blast
      ultimately show ?thesis using False cp by simp
    qed
    have reg: "w' = w + int (length payload)
            \<and> prefix (calls sa @ [SMkdirAll ?P defaultDirPermission,
                                   SOpenFile ?T (Mode h), SWrite ?T payload])
                (calls sb)
            \<and> (\<exists>old. map_option kind (lookup sb ?T) = Some (KFile (overwrite payload old)))"
      if ty: "Typeflag h \<in> {TypeReg, TypeRegA, TypeChar, TypeBlock, TypeFifo}"
    proof -
      have nd: "Typeflag h \<noteq> TypeDir" using ty by auto
      obtain n x sx where r: "extractRegular env h payload fault ?T pm sp = ((n, x), sx)"
        by (cases "extractRegular env h payload fault ?T pm sp") auto
      from step d ty nd r have x: "x = None" and w': "w' = w + n" and sx: "sx = sb"
        by (cases x; simp)+
      from extractRegular_writes [OF r [unfolded x sx]] w' cp show ?thesis
        by simp
    qed
    have sym: "map_option kind (lookup sb ?T) = Some (KSymlink (Linkname h))
            \<and> calls sb = calls sa @ SMkdirAll ?P defaultDirPermission
                  # SLstat ?T
                  # (if fst (Lstat env ?T (snd (MkdirAll env ?P defaultDirPermission sa)))
                     then [SRemove ?T] else [])
                  @ SSymlink (Linkname h) ?T
                  # (if pm \<and> \<not> windows env then [SLchown ?T (Uid h) (Gid h)] else [])"
      if ty: "Typeflag h = TypeSymlink"
    proof -
      obtain x sx where r: "extractSymlink env h ?T pm sp = (x, sx)"
        by (cases "extractSymlink env h ?T pm sp")
      from step d ty r have x: "x = None" and sx: "sx = sb"
        by (cases x; simp)+
      from extractSymlink_makes_link [OF r [unfolded x sx]] cp show ?thesis
        by (simp add: sp)
    qed
    have lnk: "names sb (key ?T) = names sb (key (Linkname h))
            \<and> names sb (key ?T) \<noteq> None
            \<and> prefix (calls sa @ SMkdirAll ?P defaultDirPermission
                  # SLstat ?T
                  # (if fst (Lstat env ?T (snd (MkdirAll env ?P defaultDirPermission sa)))
                     then [SRemove ?T] else [])
                  @ [SLink (Linkname h) ?T])
                (calls sb)"
      if ty: "Typeflag h = TypeLink"
    proof -
      obtain x sx where r: "extractLink env h ?T pm sp = (x, sx)"
        by (cases "extractLink env h ?T pm sp")
      from step d ty r have x: "x = None" and sx: "sx = sb"
        by (cases x; simp)+
      note L = extractLink_makes_link [OF r [unfolded x sx]]
      from L have l1: "names sb (key ?T) = names sb (key (Linkname h))"
        by (rule conjunct1)
      from L have l2: "names sb (key ?T) \<noteq> None"
        by (elim conjE)
      from L have "prefix (calls sp @ SLstat ?T
                   # (if fst (Lstat env ?T sp) then [SRemove ?T] else [])
                   @ [SLink (Linkname h) ?T]) (calls sb)"
        by (elim conjE)
      then have l3: "prefix (calls sa @ SMkdirAll ?P defaultDirPermission
                  # SLstat ?T
                  # (if fst (Lstat env ?T (snd (MkdirAll env ?P defaultDirPermission sa)))
                     then [SRemove ?T] else [])
                  @ [SLink (Linkname h) ?T])
                (calls sb)"
        by (simp add: cp sp)
      from l1 l2 l3 show ?thesis
        by (intro conjI)
    qed
    from e1 e2 dir reg sym lnk show ?thesis
      by blast
  qed
  from t A B C show ?thesis
    by blast
qed

theorem Extract_verbatim_name_witness:
  "entry_target ''/out'' (plain_header TypeReg ''/etc/passwd'') = Inr ''/etc/passwd''
   \<and> fst (Extract quiet_env False ''/out'' outside_stream empty_fs) = (3, None)
   \<and> (\<exists>old. map_option kind
                (lookup (snd (Extract quiet_env False ''/out'' outside_stream empty_fs))
                   ''/etc/passwd'')
              = Some (KFile (overwrite ''abc'' old)))
   \<and> map_option kind
        (lookup (step_fs (extract_entry quiet_env False ''/out''
                            (plain_header TypeDir ''/etc/x'') [] None 0 [] empty_fs))
           ''/etc/x'')
       = Some KDir"
proof -
  let ?d = "plain_header TypeDir ''/etc/x''"
  let ?f = "plain_header TypeReg ''/etc/passwd''"
  note defs = path_defs os_defs extract_defs fixture_defs upt_rec
  have nf: "''/out'' = Name ?f \<or> IsAbs (Name ?f)"
    by (simp add: plain_header_def IsAbs_def)
  have nd: "''/out'' = Name ?d \<or> IsAbs (Name ?d)"
    by (simp add: plain_header_def IsAbs_def)
  let ?st1 = "extract_steps quiet_env False ''/out'' [Entry ?d [] None] 0 [] empty_fs"
  have r1: "?st1 = Continue (step_written ?st1) (step_dm ?st1) (step_fs ?st1)"
    by (simp add: defs)
  let ?st2 = "extract_entry quiet_env False ''/out'' ?f ''abc'' None
                (step_written ?st1) (step_dm ?st1) (step_fs ?st1)"
  have r2: "?st2 = Continue (step_written ?st2) (step_dm ?st2) (step_fs ?st2)"
    by (simp add: defs)
  have ty: "Typeflag ?f \<in> {TypeReg, TypeRegA, TypeChar, TypeBlock, TypeFifo}"
    by (simp add: plain_header_def)
  note t = Extract_verbatim_name [OF nf r1, where payload = "''abc''" and fault = None
             and post = "[]" and w' = "step_written ?st2" and dm' = "step_dm ?st2"
             and sb = "step_fs ?st2"]
  from t have a: "entry_target ''/out'' ?f = Inr (Name ?f)"
    by (rule conjunct1)
  from t r2 have run: "Extract quiet_env False ''/out'' ([Entry ?d [] None] @ [Entry ?f ''abc'' None]) empty_fs
                  = extract_loop quiet_env False ''/out'' [] (step_written ?st2) (step_dm ?st2) (step_fs ?st2)"
    by blast
  from t r2 ty have w: "step_written ?st2 = step_written ?st1 + int (length ''abc'')"
    and k: "\<exists>old. map_option kind (lookup (step_fs ?st2) (Name ?f)) = Some (KFile (overwrite ''abc'' old))"
    by blast+
  have s: "outside_stream = [Entry ?d [] None] @ [Entry ?f ''abc'' None]"
    by (simp add: outside_stream_def)
  have w1: "step_written ?st1 = 0"
    by (simp add: defs)
  have c1: "entry_target ''/out'' ?f = Inr ''/etc/passwd''"
    using a by (simp add: plain_header_def)
  have c2: "fst (Extract quiet_env False ''/out'' outside_stream empty_fs) = (3, None)"
    unfolding s run using w w1 by simp
  have c3: "\<exists>old. map_option kind
                (lookup (snd (Extract quiet_env False ''/out'' outside_stream empty_fs))
                   ''/etc/passwd'')
              = Some (KFile (overwrite ''abc'' old))"
    unfolding s run using k by (simp add: plain_header_def)
  have r0: "extract_steps quiet_env False ''/out'' [] 0 [] empty_fs = Continue 0 [] empty_fs"
    by simp
  let ?e = "extract_entry quiet_env False ''/out'' ?d [] None 0 [] empty_fs"
  have r3: "?e = Continue (step_written ?e) (step_dm ?e) (step_fs ?e)"
    by (simp add: defs)
  have td: "Typeflag ?d = TypeDir" "Clean (Name ?d) \<noteq> ''/''"
    by (simp_all add: plain_header_def path_defs)
  note u = Extract_verbatim_name [OF nd r0, where payload = "[]" and fault = None
             and post = "[Entry ?f ''abc'' None]" and w' = "step_written ?e"
             and dm' = "step_dm ?e" and sb = "step_fs ?e"]
  from u r3 td have "map_option kind (lookup (step_fs ?e) (Name ?d)) = Some KDir"
    by blast
  then have c4: "map_option kind (lookup (step_fs ?e) ''/etc/x'') = Some KDir"
    by (simp add: plain_header_def)
  from c1 c2 c3 c4 show ?thesis
    by (intro conjI)
qed

text \<open>
  C7. When \<open>extractSymlink\<close> succeeds, the destination is a symbolic link whose target
  is the link name of the header, byte for byte; its mode and its two times are those
  the link was created with, whatever the header says; the owner and the group are the
  header's when metadata is preserved, the platform is not Windows and \<^verbatim>\<open>Lchown\<close> does
  not fail, and those of the process otherwise. The name is bound to a new inode: what
  was there before has been removed. The calls made are \<^verbatim>\<open>Lstat\<close>, \<^verbatim>\<open>Remove\<close> when
  \<^verbatim>\<open>Lstat\<close> found an entry, \<^verbatim>\<open>Symlink\<close>, and \<^verbatim>\<open>Lchown\<close> under the condition above: no
  mode or time is set and no file is opened or written. The payload of a symbolic-link
  entry plays no part in \<open>Extract\<close>: the call does the same with it and without it. On
  the side of \<open>Create\<close>, the header \<open>createSymlinkHeader\<close> makes is a symbolic-link header
  whose link name is what \<^verbatim>\<open>Readlink\<close> returned.
\<close>

theorem extractSymlink_restores_link:
  assumes ok: "extractSymlink env h target pm s = (None, s')"
  shows "map_option kind (lookup s' target) = Some (KSymlink (Linkname h))
       \<and> map_option perm (lookup s' target) = Some 511
       \<and> map_option atime (lookup s' target) = Some (clock env)
       \<and> map_option mtime (lookup s' target) = Some (clock env)
       \<and> map_option uid (lookup s' target)
           = Some (if pm \<and> \<not> windows env
                      \<and> \<not> fails env (length (calls s') - 1) (SLchown target (Uid h) (Gid h))
                   then Uid h else euid env)
       \<and> map_option gid (lookup s' target)
           = Some (if pm \<and> \<not> windows env
                      \<and> \<not> fails env (length (calls s') - 1) (SLchown target (Uid h) (Gid h))
                   then Gid h else egid env)
       \<and> names s' (key target) = Some (fresh s)
       \<and> calls s' = calls s @ SLstat target
                       # (if fst (Lstat env target s) then [SRemove target] else [])
                       @ SSymlink (Linkname h) target
                       # (if pm \<and> \<not> windows env then [SLchown target (Uid h) (Gid h)] else [])
       \<and> (Typeflag h = TypeSymlink \<longrightarrow>
            Extract env pm dst (Entry h payload fault # evs) s0
              = Extract env pm dst (Entry h [] None # evs) s0)
       \<and> (createSymlinkHeader n = Inr hc \<longrightarrow>
            Readlink n = Inr (Linkname hc) \<and> Typeflag hc = TypeSymlink)"
proof -
  have mk: "createSymlinkHeader n = Inr hc \<longrightarrow>
            Readlink n = Inr (Linkname hc) \<and> Typeflag hc = TypeSymlink"
    by (cases n rule: Readlink.cases)
       (auto simp: createSymlinkHeader_def sysStat_def split: option.splits)
  obtain s1 where u: "unlink env target s = (None, s1)"
    using ok by (auto simp: extractSymlink_def split: prod.splits option.splits)
  obtain s2 where l: "Symlink env (Linkname h) target s1 = (None, s2)"
    using ok u by (auto simp: extractSymlink_def split: prod.splits option.splits)
  have s': "s' = (if pm \<and> \<not> windows env then snd (Lchown env target (Uid h) (Gid h) s2) else s2)"
    using ok u l by (simp add: extractSymlink_def)
  have s2: "s2 = create env (key target) (KSymlink (Linkname h)) 511
                   (record_call (SSymlink (Linkname h) target) s1)"
    using l by (rule Symlink_ok)
  have f1: "fresh s1 = fresh s"
    using u by (rule unlink_ok_fresh)
  have c1: "calls s1 = calls s @ SLstat target # (if fst (Lstat env target s) then [SRemove target] else [])"
    using u by (rule unlink_callsD)
  have look2: "lookup s2 target = Some (new_inode env (KSymlink (Linkname h)) 511)"
    by (simp add: s2)
  have n2: "names s2 (key target) = Some (fresh s)"
    by (simp add: s2 f1)
  have c2: "calls s2 = calls s1 @ [SSymlink (Linkname h) target]"
    by (simp add: s2)
  have pay: "Typeflag h = TypeSymlink \<longrightarrow>
            Extract env pm dst (Entry h payload fault # evs) s0
              = Extract env pm dst (Entry h [] None # evs) s0"
  proof
    assume "Typeflag h = TypeSymlink"
    then have "extract_entry env pm dst h payload fault 0 [] s0
                 = extract_entry env pm dst h [] None 0 [] s0"
      by (rule extract_entry_symlink_payload)
    then show "Extract env pm dst (Entry h payload fault # evs) s0
                 = Extract env pm dst (Entry h [] None # evs) s0"
      by (simp add: Extract_def)
  qed
  let ?n = "new_inode env (KSymlink (Linkname h)) 511"
  let ?own = "pm \<and> \<not> windows env
                \<and> \<not> fails env (length (calls s') - 1) (SLchown target (Uid h) (Gid h))"
  have look': "lookup s' target = Some (if ?own then ?n\<lparr>uid := Uid h, gid := Gid h\<rparr> else ?n)"
   and n': "names s' (key target) = Some (fresh s)"
   and c': "calls s' = calls s2 @ (if pm \<and> \<not> windows env then [SLchown target (Uid h) (Gid h)] else [])"
  proof -
    show "lookup s' target = Some (if ?own then ?n\<lparr>uid := Uid h, gid := Gid h\<rparr> else ?n)"
    proof (cases "pm \<and> \<not> windows env")
      case False
      then have "s' = s2" using s' by auto
      with False look2 show ?thesis by auto
    next
      case True
      then have e: "s' = snd (Lchown env target (Uid h) (Gid h) s2)" using s' by auto
      have "calls s' = calls s2 @ [SLchown target (Uid h) (Gid h)]"
        by (simp add: e Lchown_def)
      then have len: "length (calls s') - 1 = length (calls s2)"
        by simp
      show ?thesis
        using True
        by (simp only: len) (simp add: e Lchown_def lookup_apply_meta_same look2 failing_def)
    qed
    show "names s' (key target) = Some (fresh s)"
      using n2 s' by (simp add: Lchown_def apply_meta_def Let_def)
    show "calls s' = calls s2 @ (if pm \<and> \<not> windows env then [SLchown target (Uid h) (Gid h)] else [])"
      using s' by (simp add: Lchown_def)
  qed
  have k: "map_option kind (lookup s' target) = Some (KSymlink (Linkname h))"
    by (simp add: look' new_inode_def)
  have p: "map_option perm (lookup s' target) = Some 511"
    by (simp add: look' new_inode_def)
  have a: "map_option atime (lookup s' target) = Some (clock env)"
    by (simp add: look' new_inode_def)
  have m: "map_option mtime (lookup s' target) = Some (clock env)"
    by (simp add: look' new_inode_def)
  have u': "map_option uid (lookup s' target) = Some (if ?own then Uid h else euid env)"
    by (simp add: look' new_inode_def)
  have g': "map_option gid (lookup s' target) = Some (if ?own then Gid h else egid env)"
    by (simp add: look' new_inode_def)
  have c: "calls s' = calls s @ SLstat target
                       # (if fst (Lstat env target s) then [SRemove target] else [])
                       @ SSymlink (Linkname h) target
                       # (if pm \<and> \<not> windows env then [SLchown target (Uid h) (Gid h)] else [])"
    by (simp add: c' c2 c1)
  from k p a m u' g' n' c pay mk show ?thesis
    by (intro conjI)
qed

theorem extractSymlink_restores_link_witness:
  "fst (extractSymlink quiet_env link_header ''/out/a'' True one_file_fs) = None
   \<and> map_option kind (lookup (snd (extractSymlink quiet_env link_header ''/out/a'' True one_file_fs)) ''/out/a'')
       = Some (KSymlink ''target.txt'')
   \<and> map_option perm (lookup (snd (extractSymlink quiet_env link_header ''/out/a'' True one_file_fs)) ''/out/a'')
       = Some 511
   \<and> map_option uid (lookup (snd (extractSymlink quiet_env link_header ''/out/a'' True one_file_fs)) ''/out/a'')
       = Some 1000"
proof -
  let ?r = "extractSymlink quiet_env link_header ''/out/a'' True one_file_fs"
  have ok: "fst ?r = None"
    by (simp add: path_defs os_defs extract_defs fixture_defs link_header_def)
  then have h: "?r = (None, snd ?r)"
    by (simp add: prod_eq_iff)
  have q: "\<not> fails quiet_env n c" "\<not> windows quiet_env" for n c
    by (simp_all add: quiet_env_def)
  have l: "Linkname link_header = ''target.txt''" "Uid link_header = 1000"
    by (simp_all add: link_header_def)
  from extractSymlink_restores_link [OF h] ok q l show ?thesis
    by simp
qed

text \<open>
  C6. Whether the calls that change a mode, times or ownership fail or not, on files,
  links and the directory records applied at the end, \<open>Extract\<close> returns the same byte
  count and the same error or success, makes the same calls, and leaves the same names
  bound to inodes of the same kinds and contents, as in the environment in which none
  of those calls fails.
\<close>

theorem Extract_ignores_metadata_failures:
  "fst (Extract env pm dst r s) = fst (Extract (meta_succeeds env) pm dst r s)
   \<and> same_content (snd (Extract env pm dst r s)) (snd (Extract (meta_succeeds env) pm dst r s))"
  unfolding Extract_def
  by (rule sim_extract_loop [OF agree_meta_succeeds same_content_refl])

theorem Extract_ignores_metadata_failures_witness:
  "fst (Extract denying_env True ''/out''
          [Entry (plain_header TypeReg ''/out/a'') ''abc'' None] empty_fs) = (3, None)
   \<and> map_option kind
        (lookup (snd (Extract denying_env True ''/out''
                   [Entry (plain_header TypeReg ''/out/a'') ''abc'' None] empty_fs)) ''/out/a'')
       = Some (KFile ''abc'')"
proof -
  let ?r = "[Entry (plain_header TypeReg ''/out/a'') ''abc'' None]"
  have m: "meta_succeeds denying_env = quiet_env"
    by (simp add: meta_succeeds_def denying_env_def quiet_env_def)
  have a: "fst (Extract quiet_env True ''/out'' ?r empty_fs) = (3, None)"
    by (simp add: path_defs os_defs extract_defs fixture_defs flush_defs upt_rec)
  have b: "map_option kind (lookup (snd (Extract quiet_env True ''/out'' ?r empty_fs)) ''/out/a'')
             = Some (KFile ''abc'')"
    by (simp add: path_defs os_defs extract_defs fixture_defs flush_defs upt_rec)
  note t = Extract_ignores_metadata_failures [of denying_env True "''/out''" ?r empty_fs]
  from t have e1: "fst (Extract denying_env True ''/out'' ?r empty_fs)
          = fst (Extract (meta_succeeds denying_env) True ''/out'' ?r empty_fs)"
    by (rule conjunct1)
  from t have e2: "same_content (snd (Extract denying_env True ''/out'' ?r empty_fs))
           (snd (Extract (meta_succeeds denying_env) True ''/out'' ?r empty_fs))"
    by (rule conjunct2)
  have "fst (Extract denying_env True ''/out'' ?r empty_fs) = (3, None)"
    using e1 a by (simp only: m)
  moreover have "map_option kind (lookup (snd (Extract denying_env True ''/out'' ?r empty_fs)) ''/out/a'')
       = Some (KFile ''abc'')"
    using same_content_lookup [OF e2, of "''/out/a''"] b by (simp only: m)
  ultimately show ?thesis
    by (rule conjI)
qed

text \<open>
  C3, as the specification states it: at the end of the stream no directory is restored
  before a directory nested inside it. The directories are sorted by the length of their destination
  strings, and an absolute name is used as it stands: the directory \<open>/a/b\<close>, written
  \<open>/a//////b\<close>, has the longer string and is restored before \<open>/a/b/c\<close>, which lies
  inside it.
\<close>

theorem Extract_restores_outer_directory_first:
  "nested_in ''/a/b/c'' ''/a//////b''
   \<and> fst (Extract quiet_env True ''/out'' unclean_stream empty_fs) = (0, None)
   \<and> drop 4 (calls (snd (Extract quiet_env True ''/out'' unclean_stream empty_fs)))
       = [SChmod ''/a//////b'' 420, SChtimes ''/a//////b'' 0 0, SChown ''/a//////b'' 0 0,
          SChmod ''/a/b/c'' 420, SChtimes ''/a/b/c'' 0 0, SChown ''/a/b/c'' 0 0]"
  by (simp add: path_defs os_defs extract_defs fixture_defs flush_defs upt_rec)

text \<open>
  C3, amended. When \<open>Extract\<close> with metadata preserved reaches the end of the stream and
  returns without error, the state it returns is the state after the last entry with
  the directory records applied to it, and the calls that apply them are the last calls
  made. The directories restored are the destinations of the directory entries, each
  once. They are restored in the order of non-increasing length of the destination
  string, so that a directory whose destination string is a proper prefix of another's
  is restored after that other one.
\<close>

theorem Extract_flushes_directories:
  assumes "Extract env True dst r s = ((n, None), s')"
  shows "\<exists>s0. s' = flush_dirs env (pending dst r []) (flush_order env (pending dst r [])) s0
            \<and> prefix (calls s) (calls s0)
            \<and> calls s' = calls s0 @ concat (map (dir_calls env (pending dst r []))
                                              (flush_order env (pending dst r [])))
            \<and> distinct (flush_order env (pending dst r []))
            \<and> set (flush_order env (pending dst r [])) = set (dir_targets dst r)
            \<and> sorted_wrt (\<lambda>a b. length b \<le> length a) (flush_order env (pending dst r []))
            \<and> (\<forall>i j. i < length (flush_order env (pending dst r []))
                    \<and> j < length (flush_order env (pending dst r []))
                    \<and> strict_prefix (flush_order env (pending dst r []) ! i)
                                    (flush_order env (pending dst r []) ! j)
                  \<longrightarrow> j < i)"
proof -
  let ?dm = "pending dst r []"
  let ?ds = "flush_order env ?dm"
  from assms obtain s0 where s0: "s' = flush_dirs env ?dm ?ds s0" "prefix (calls s) (calls s0)"
    unfolding Extract_def by (blast dest: extract_loop_flushes)
  have c: "calls s' = calls s0 @ concat (map (dir_calls env ?dm) ?ds)"
    by (simp add: s0(1) calls_flush_dirs)
  have m: "mset ?ds = mset (map fst ?dm)"
    by (rule mset_flush_order)
  have "distinct (map fst ?dm)"
    by (rule distinct_pending) simp
  with m have d: "distinct ?ds"
    by (metis mset_eq_imp_distinct_iff)
  have "set ?ds = set (map fst ?dm)"
    using m by (rule mset_eq_setD)
  then have k: "set ?ds = set (dir_targets dst r)"
    by (simp only: keys_pending) simp
  note srt = sorted_flush_order [of env ?dm]
  have l: "\<forall>i j. i < length ?ds \<and> j < length ?ds \<and> strict_prefix (?ds ! i) (?ds ! j) \<longrightarrow> j < i"
    using longer_first [OF srt] by blast
  from s0 c d k srt l show ?thesis
    by blast
qed

theorem Extract_flushes_directories_witness:
  "fst (Extract quiet_env True ''out'' tree_stream empty_fs) = (3, None)
   \<and> (\<exists>s0. snd (Extract quiet_env True ''out'' tree_stream empty_fs)
              = flush_dirs quiet_env (pending ''out'' tree_stream []) [''out/x/a/b'', ''out/x/a''] s0)"
proof -
  let ?r = "Extract quiet_env True ''out'' tree_stream empty_fs"
  have "?r = ((3, None), snd ?r)"
    using tree_stream_ok by (simp add: prod_eq_iff)
  from Extract_flushes_directories [OF this] tree_stream_order tree_stream_ok
  show ?thesis by auto
qed

section \<open>Creation: results\<close>

text \<open>
  C2. The specification has it that, with metadata preserved, the header of every
  entry, symbolic links included, has the PAX format. \<open>writeToArchive\<close> sets the format on the header it has
  built and then, for a symbolic link, replaces that header by the one
  \<open>createSymlinkHeader\<close> builds, whose format is unset. Here a regular file and a symbolic
  link are archived with metadata preserved: the header of the file has the PAX format,
  the header of the link has not.
\<close>

theorem Create_symlink_header_not_PAX:
  "fst (Create src_quiet_env ''/src'' False True [''/src/a'', ''/src/l''] False) = (5, None)
   \<and> map (\<lambda>h. (Name h, Typeflag h, Format h))
         (headers (snd (Create src_quiet_env ''/src'' False True [''/src/a'', ''/src/l''] False)))
       = [(''/src/a'', TypeReg, FormatPAX), (''/src/l'', TypeSymlink, FormatUnknown)]"
  by (simp add: path_defs create_defs)

text \<open>
  C8. The specification has it that, when copying a regular file breaks, \<open>Create\<close>
  returns the bytes written so far, those of the file copied in part included.
  \<open>writeToArchive\<close> adds the bytes of
  a file to the counter only after a copy without error. Here five bytes of a first file
  and three of the eight bytes of a second have gone to the writer when the copy breaks,
  and \<open>Create\<close> returns five.
\<close>

theorem Create_copy_failure_drops_partial_bytes:
  "fst (Create src_quiet_env ''/src'' False False [''/src/a'', ''/src/b''] False)
     = (5, Some (ErrWalk (ErrWriteFile (ErrCopyToTarball ErrOs))))
   \<and> data (snd (Create src_quiet_env ''/src'' False False [''/src/a'', ''/src/b''] False))
       = [''hello'', ''123'']"
  by (simp add: path_defs create_defs)

end
